theory Spec2Isabelle
  imports Main "HOL-Library.Word" "HOL-Library.AList" "HOL-Library.Sublist"
begin

section \<open>Strings, paths and the file system\<close>

text \<open>
  The script \<^verbatim>\<open>web/scripts/build-widget-assets.js\<close> works on JavaScript strings, which are
  sequences of 16-bit code units. A string literal of the script is written \<open>lit ''...''\<close>.
\<close>

type_synonym jschar = "16 word"
type_synonym jsstring = "jschar list"

definition lit :: "string \<Rightarrow> jsstring" where
  "lit s = map (\<lambda>c. of_nat (of_char c)) s"

text \<open>
  A path is the list of its segments below the file-system root, so that
  \<^verbatim>\<open>path.join(dir, name)\<close> appends segments and \<^verbatim>\<open>path.dirname\<close> removes the last one.
  (POSIX conventions: the separator is \<^verbatim>\<open>/\<close>, and a directory entry's name holds no
  separator.)
\<close>

type_synonym path = "jsstring list"

definition path_join :: "path \<Rightarrow> path \<Rightarrow> path" where
  "path_join dir rel = dir @ rel"

definition path_dirname :: "path \<Rightarrow> path" where
  "path_dirname p = butlast p"

text \<open>
  The file system is a tree. A directory keeps its entries in the order in which
  \<^verbatim>\<open>fs.readdirSync\<close> lists them; a file keeps its text.
\<close>

datatype fsnode = File jsstring | Dir "(jsstring \<times> fsnode) list"

primrec lookup :: "path \<Rightarrow> fsnode \<Rightarrow> fsnode option" where
  "lookup [] n = Some n"
| "lookup (s # p) n =
     (case n of
        File _ \<Rightarrow> None
      | Dir es \<Rightarrow> (case map_of es s of None \<Rightarrow> None | Some c \<Rightarrow> lookup p c))"

definition existsSync :: "fsnode \<Rightarrow> path \<Rightarrow> bool" where
  "existsSync fs p = (lookup p fs \<noteq> None)"

section \<open>Entry-file resolution\<close>

definition ENTRY_FILES :: "jsstring list" where
  "ENTRY_FILES = [lit ''index.tsx'', lit ''index.jsx'', lit ''index.ts'', lit ''index.js'',
                  lit ''main.tsx'', lit ''main.jsx'', lit ''main.ts'', lit ''main.js'']"

text \<open>The \<^verbatim>\<open>for (const candidate of ENTRY_FILES)\<close> loop of \<^verbatim>\<open>resolveEntryFile\<close>.\<close>

fun resolve_loop :: "fsnode \<Rightarrow> path \<Rightarrow> jsstring list \<Rightarrow> path option" where
  "resolve_loop fs entryDir [] = None"
| "resolve_loop fs entryDir (candidate # rest) =
     (let candidatePath = path_join entryDir [candidate]
      in if existsSync fs candidatePath then Some candidatePath
         else resolve_loop fs entryDir rest)"

definition resolveEntryFile :: "fsnode \<Rightarrow> path \<Rightarrow> path option" where
  "resolveEntryFile fs entryDir = resolve_loop fs entryDir ENTRY_FILES"

text \<open>
  The order of the specification's sentence, kept apart from the script's list: for each
  basename the typed-with-markup extension, then typed, then untyped-with-markup, then
  untyped.
\<close>

definition claimed_entry_order :: "jsstring list" where
  "claimed_entry_order =
     [b @ e. b \<leftarrow> [lit ''index'', lit ''main''], e \<leftarrow> [lit ''.tsx'', lit ''.ts'', lit ''.jsx'', lit ''.js'']]"

definition first_existing :: "fsnode \<Rightarrow> path \<Rightarrow> jsstring list \<Rightarrow> path option" where
  "first_existing fs entryDir order =
     map_option (\<lambda>c. entryDir @ [c]) (find (\<lambda>c. existsSync fs (entryDir @ [c])) order)"

text \<open>A widget directory \<^verbatim>\<open>w\<close> holding \<^verbatim>\<open>index.ts\<close> and \<^verbatim>\<open>index.jsx\<close>.\<close>

definition fs_ts_jsx :: fsnode where
  "fs_ts_jsx = Dir [(lit ''w'', Dir [(lit ''index.ts'', File []), (lit ''index.jsx'', File [])])]"

text \<open>A widget directory \<^verbatim>\<open>w\<close> holding \<^verbatim>\<open>main.tsx\<close> and \<^verbatim>\<open>index.js\<close>.\<close>

definition fs_main_tsx_index_js :: fsnode where
  "fs_main_tsx_index_js =
     Dir [(lit ''w'', Dir [(lit ''main.tsx'', File []), (lit ''index.js'', File [])])]"

text \<open>A widget directory \<^verbatim>\<open>w\<close> holding \<^verbatim>\<open>main.js\<close> and \<^verbatim>\<open>main.tsx\<close>.\<close>

definition fs_main_tsx_js :: fsnode where
  "fs_main_tsx_js =
     Dir [(lit ''w'', Dir [(lit ''main.js'', File []), (lit ''main.tsx'', File [])])]"

text \<open>A widget directory \<^verbatim>\<open>w\<close> holding \<^verbatim>\<open>index.js\<close> and \<^verbatim>\<open>index.tsx\<close>.\<close>

definition fs_index_tsx_js :: fsnode where
  "fs_index_tsx_js =
     Dir [(lit ''w'', Dir [(lit ''index.js'', File []), (lit ''index.tsx'', File [])])]"

section \<open>Pattern matching on source text\<close>

text \<open>
  The character class \<^verbatim>\<open>\s\<close> of a JavaScript regular expression: the white-space and
  line-terminator code units.
\<close>

definition is_space :: "jschar \<Rightarrow> bool" where
  "is_space c \<longleftrightarrow>
     c \<in> {0x09, 0x0A, 0x0B, 0x0C, 0x0D, 0x20, 0xA0, 0x1680, 0x2028, 0x2029, 0x202F, 0x205F,
          0x3000, 0xFEFF}
     \<or> (0x2000 \<le> c \<and> c \<le> 0x200A)"

text \<open>The character class \<^verbatim>\<open>['"]\<close>.\<close>

definition is_quote :: "jschar \<Rightarrow> bool" where
  "is_quote c \<longleftrightarrow> c = 0x27 \<or> c = 0x22"

definition LPAREN :: jschar where
  "LPAREN = 0x28"

definition RPAREN :: jschar where
  "RPAREN = 0x29"

definition DOT :: jschar where
  "DOT = 0x2E"

fun strip_prefix :: "'a list \<Rightarrow> 'a list \<Rightarrow> 'a list option" where
  "strip_prefix [] s = Some s"
| "strip_prefix (p # ps) [] = None"
| "strip_prefix (p # ps) (c # cs) = (if p = c then strip_prefix ps cs else None)"

definition startsWith :: "jsstring \<Rightarrow> jsstring \<Rightarrow> bool" where
  "startsWith s p = (strip_prefix p s \<noteq> None)"

section \<open>Detection of the mount identifier\<close>

text \<open>
  The regular expression of \<^verbatim>\<open>detectRootId\<close> is
  \<^verbatim>\<open>/getElementById\s*\(\s*['"]([^'"]+)['"]\s*\)/\<close>.
  \<open>rootid_match_here s\<close> matches it at the very start of \<open>s\<close> and returns the text of
  its capture group. Each greedy repetition is followed by a character outside the repeated
  class, so the matcher takes the longest run each time and never has to give characters back.
\<close>

definition rootid_match_here :: "jsstring \<Rightarrow> jsstring option" where
  "rootid_match_here s =
     (case strip_prefix (lit ''getElementById'') s of
        None \<Rightarrow> None
      | Some r1 \<Rightarrow>
          (case dropWhile is_space r1 of
             [] \<Rightarrow> None
           | c1 # r2 \<Rightarrow>
               if c1 \<noteq> LPAREN then None
               else (case dropWhile is_space r2 of
                       [] \<Rightarrow> None
                     | q1 # r3 \<Rightarrow>
                         if \<not> is_quote q1 then None
                         else let arg = takeWhile (\<lambda>c. \<not> is_quote c) r3
                              in if arg = [] then None
                                 else (case dropWhile (\<lambda>c. \<not> is_quote c) r3 of
                                         [] \<Rightarrow> None
                                       | q2 # r4 \<Rightarrow>
                                           (case dropWhile is_space r4 of
                                              [] \<Rightarrow> None
                                            | c2 # r5 \<Rightarrow>
                                                if c2 = RPAREN then Some arg else None)))))"

text \<open>
  \<^verbatim>\<open>entrySource.match(regex)\<close> with a regular expression that is not global: the match at
  the leftmost position of the text that has one.
\<close>

fun rootid_match :: "jsstring \<Rightarrow> jsstring option" where
  "rootid_match [] = rootid_match_here []"
| "rootid_match (c # cs) =
     (case rootid_match_here (c # cs) of
        Some g \<Rightarrow> Some g
      | None \<Rightarrow> rootid_match cs)"

definition detectRootId :: "jsstring \<Rightarrow> jsstring \<Rightarrow> jsstring" where
  "detectRootId entrySource fallbackName =
     (case rootid_match entrySource of
        Some g \<Rightarrow> if g \<noteq> [] then g else fallbackName @ lit ''-root''
      | None \<Rightarrow> fallbackName @ lit ''-root'')"

text \<open>
  What the pattern denotes, written as a decomposition of the text: at index \<open>i\<close> of the
  source there starts a lookup call with the quoted argument \<open>arg\<close>.
\<close>

definition rootid_call_at :: "jsstring \<Rightarrow> nat \<Rightarrow> jsstring \<Rightarrow> bool" where
  "rootid_call_at src i arg \<longleftrightarrow>
     i \<le> length src \<and>
     (\<exists>ws1 ws2 q1 q2 ws3 rest.
        drop i src = lit ''getElementById'' @ ws1 @ [LPAREN] @ ws2 @ [q1] @ arg @ [q2] @ ws3
                       @ [RPAREN] @ rest
        \<and> (\<forall>c \<in> set ws1. is_space c) \<and> (\<forall>c \<in> set ws2. is_space c)
        \<and> (\<forall>c \<in> set ws3. is_space c)
        \<and> is_quote q1 \<and> is_quote q2 \<and> arg \<noteq> [] \<and> (\<forall>c \<in> set arg. \<not> is_quote c))"

text \<open>An entry file in the manner of the \<^verbatim>\<open>hello-world\<close> widget.\<close>

definition hello_source :: jsstring where
  "hello_source = lit ''import '' @ [0x27] @ lit ''./index.css'' @ [0x27] @ [0x0A]
                    @ lit ''createRoot(document.getElementById('' @ [0x27]
                    @ lit ''hello-world-root'' @ [0x27] @ lit '')!).render(x)''"

section \<open>File-system operations and errors\<close>

text \<open>
  A thrown value: an \<^verbatim>\<open>Error\<close> the script creates itself, with its message; an error of a
  \<^verbatim>\<open>node:fs\<close> call, with the path it failed on; or whatever the bundler or the
  configuration loader throws.
\<close>

datatype error = Error jsstring | FsError path | External jsstring

type_synonym dirent = "jsstring \<times> fsnode"

primrec isDirectory :: "fsnode \<Rightarrow> bool" where
  "isDirectory (File _) = False"
| "isDirectory (Dir _) = True"

text \<open>\<^verbatim>\<open>fs.readdirSync(dir, { withFileTypes: true })\<close>: each entry with its node.\<close>

definition readdirSync :: "fsnode \<Rightarrow> path \<Rightarrow> error + dirent list" where
  "readdirSync fs dir =
     (case lookup dir fs of
        Some (Dir es) \<Rightarrow> Inr es
      | _ \<Rightarrow> Inl (FsError dir))"

definition readFileSync :: "fsnode \<Rightarrow> path \<Rightarrow> error + jsstring" where
  "readFileSync fs file =
     (case lookup file fs of
        Some (File text) \<Rightarrow> Inr text
      | _ \<Rightarrow> Inl (FsError file))"

text \<open>
  \<^verbatim>\<open>fs.rmSync(p, { recursive: true, force: true })\<close>: the subtree at \<open>p\<close> is removed; a path
  that does not exist is not an error.
\<close>

primrec rmSync :: "path \<Rightarrow> fsnode \<Rightarrow> fsnode" where
  "rmSync [] n = n"
| "rmSync (s # p) n =
     (case n of
        File text \<Rightarrow> File text
      | Dir es \<Rightarrow>
          if p = [] then Dir (AList.delete s es)
          else Dir (AList.map_entry s (rmSync p) es))"

text \<open>
  \<^verbatim>\<open>fs.mkdirSync(p, { recursive: true })\<close>: missing directories along \<open>p\<close> are created; a
  file in the way is an error (\<open>None\<close>).
\<close>

primrec mkdirSync :: "path \<Rightarrow> fsnode \<Rightarrow> fsnode option" where
  "mkdirSync [] n = (case n of File _ \<Rightarrow> None | Dir es \<Rightarrow> Some (Dir es))"
| "mkdirSync (s # p) n =
     (case n of
        File _ \<Rightarrow> None
      | Dir es \<Rightarrow>
          (case map_of es s of
             None \<Rightarrow> map_option (\<lambda>c. Dir (es @ [(s, c)])) (mkdirSync p (Dir []))
           | Some c \<Rightarrow> map_option (\<lambda>c'. Dir (AList.update s c' es)) (mkdirSync p c)))"

text \<open>
  \<^verbatim>\<open>fs.writeFileSync(p, data)\<close>: the file is created or replaced; the directory that is to
  hold it must exist, and \<open>p\<close> must not be a directory.
\<close>

primrec writeFileSync :: "path \<Rightarrow> jsstring \<Rightarrow> fsnode \<Rightarrow> fsnode option" where
  "writeFileSync [] data n = None"
| "writeFileSync (s # p) data n =
     (case n of
        File _ \<Rightarrow> None
      | Dir es \<Rightarrow>
          if p = [] then
            (case map_of es s of
               Some (Dir _) \<Rightarrow> None
             | _ \<Rightarrow> Some (Dir (AList.update s (File data) es)))
          else
            (case map_of es s of
               None \<Rightarrow> None
             | Some c \<Rightarrow> map_option (\<lambda>c'. Dir (AList.update s c' es)) (writeFileSync p data c)))"

text \<open>How a path prints inside a message, and \<^verbatim>\<open>path.relative\<close> in forward-slash form.\<close>

definition SLASH :: jschar where
  "SLASH = 0x2F"

definition path_str :: "path \<Rightarrow> jsstring" where
  "path_str p = (if p = [] then [SLASH] else concat (map (\<lambda>s. SLASH # s) p))"

fun join_slash :: "jsstring list \<Rightarrow> jsstring" where
  "join_slash [] = []"
| "join_slash [s] = s"
| "join_slash (s # t # ss) = s @ [SLASH] @ join_slash (t # ss)"

fun relative_segments :: "path \<Rightarrow> path \<Rightarrow> jsstring list" where
  "relative_segments [] to = to"
| "relative_segments (f # from) [] = replicate (length (f # from)) (lit ''..'')"
| "relative_segments (f # from) (t # to) =
     (if f = t then relative_segments from to
      else replicate (length (f # from)) (lit ''..'') @ (t # to))"

definition path_relative :: "path \<Rightarrow> path \<Rightarrow> jsstring" where
  "path_relative from to = join_slash (relative_segments from to)"

text \<open>The directories of the script, below the directory \<open>web\<close> that holds \<^verbatim>\<open>scripts/\<close>.\<close>

definition SRC_ROOT :: "path \<Rightarrow> path" where
  "SRC_ROOT web = path_join web [lit ''src'']"

definition OUT_DIR :: "path \<Rightarrow> path" where
  "OUT_DIR web = path_join web [lit ''dist'', lit ''widgets'']"

definition MANIFEST_PATH :: "path \<Rightarrow> path" where
  "MANIFEST_PATH web = path_join (OUT_DIR web) [lit ''manifest.json'']"

definition ensureDirectoryExists :: "fsnode \<Rightarrow> path \<Rightarrow> error + unit" where
  "ensureDirectoryExists fs dir =
     (if \<not> existsSync fs dir then Inl (Error (lit ''Directory not found: '' @ path_str dir))
      else Inr ())"

definition ensureFileExists :: "fsnode \<Rightarrow> path \<Rightarrow> jsstring \<Rightarrow> error + unit" where
  "ensureFileExists fs file message =
     (if \<not> existsSync fs file then Inl (Error message) else Inr ())"

section \<open>Entry discovery\<close>

record entry_target =
  name :: jsstring
  entryFile :: path
  entrySource :: jsstring
  detectedRootId :: jsstring

text \<open>The loop of \<^verbatim>\<open>discoverEntries\<close> over the listing of the source root.\<close>

fun discover_loop ::
  "fsnode \<Rightarrow> path \<Rightarrow> dirent list \<Rightarrow> entry_target list \<Rightarrow> error + entry_target list" where
  "discover_loop fs web [] entries = Inr entries"
| "discover_loop fs web ((dname, node) # rest) entries =
     (if \<not> isDirectory node then discover_loop fs web rest entries
      else if startsWith dname (lit ''.'') then discover_loop fs web rest entries
      else
        let entryDir = path_join (SRC_ROOT web) [dname]
        in case resolveEntryFile fs entryDir of
             None \<Rightarrow> discover_loop fs web rest entries
           | Some file \<Rightarrow>
               (case readFileSync fs file of
                  Inl e \<Rightarrow> Inl e
                | Inr source \<Rightarrow>
                    discover_loop fs web rest
                      (entries @ [\<lparr>name = dname, entryFile = file, entrySource = source,
                                   detectedRootId = detectRootId source dname\<rparr>])))"

definition discoverEntries :: "fsnode \<Rightarrow> path \<Rightarrow> error + entry_target list" where
  "discoverEntries fs web =
     (case readdirSync fs (SRC_ROOT web) of
        Inl e \<Rightarrow> Inl e
      | Inr dirEntries \<Rightarrow> discover_loop fs web dirEntries [])"

section \<open>Stylesheet selection\<close>

definition CSS_EXTENSIONS :: "jsstring set" where
  "CSS_EXTENSIONS = {lit ''.css'', lit ''.pcss'', lit ''.scss'', lit ''.sass''}"

definition GLOBAL_CSS_CANDIDATES :: "path list" where
  "GLOBAL_CSS_CANDIDATES = [[lit ''index.css''], [lit ''global.css''], [lit ''styles'', lit ''index.css'']]"

text \<open>
  \<^verbatim>\<open>String.prototype.toLowerCase\<close> on the letters \<^verbatim>\<open>A\<close> to \<^verbatim>\<open>Z\<close>; every other code unit is
  kept. (The lower-case mappings of Unicode outside these letters produce none of the
  characters of \<open>CSS_EXTENSIONS\<close>, so they cannot change the membership test below.)
\<close>

definition lower_char :: "jschar \<Rightarrow> jschar" where
  "lower_char c = (if 0x41 \<le> c \<and> c \<le> 0x5A then c + 0x20 else c)"

definition toLowerCase :: "jsstring \<Rightarrow> jsstring" where
  "toLowerCase s = map lower_char s"

text \<open>
  \<^verbatim>\<open>path.extname\<close> of a directory entry's name: the text from the last dot on, and the
  empty string when there is no dot, when the only dot starts the name, or for \<^verbatim>\<open>..\<close>.
\<close>

definition path_extname :: "jsstring \<Rightarrow> jsstring" where
  "path_extname n =
     (if DOT \<notin> set n then []
      else let ext = DOT # rev (takeWhile (\<lambda>c. c \<noteq> DOT) (rev n));
               stem = take (length n - length ext) n
           in if stem = [] \<or> n = [DOT, DOT] then [] else ext)"

text \<open>
  \<^verbatim>\<open>CSS_MODULE_REGEX.test(name)\<close> for \<^verbatim>\<open>/\.module\./i\<close>: the text \<^verbatim>\<open>.module.\<close> occurs in the
  name, letters compared without regard to case.
\<close>

fun occurs_in :: "'a list \<Rightarrow> 'a list \<Rightarrow> bool" where
  "occurs_in pat [] = (pat = [])"
| "occurs_in pat (c # cs) = (strip_prefix pat (c # cs) \<noteq> None \<or> occurs_in pat cs)"

definition CSS_MODULE_REGEX_test :: "jsstring \<Rightarrow> bool" where
  "CSS_MODULE_REGEX_test n = occurs_in (lit ''.module.'') (toLowerCase n)"

text \<open>
  The \<^verbatim>\<open>for (const dirent of dirEntries)\<close> loop of \<^verbatim>\<open>collectCssFiles\<close>. The queue holds each
  pending directory together with the listing that \<^verbatim>\<open>readdirSync\<close> returns for it.
\<close>

fun scan_dirents ::
  "path \<Rightarrow> dirent list \<Rightarrow> (path \<times> dirent list) list \<Rightarrow> path list
     \<Rightarrow> (path \<times> dirent list) list \<times> path list" where
  "scan_dirents current [] queue results = (queue, results)"
| "scan_dirents current ((dname, File text) # rest) queue results =
     (let ext = toLowerCase (path_extname dname)
      in if ext \<notin> CSS_EXTENSIONS then scan_dirents current rest queue results
         else if CSS_MODULE_REGEX_test dname then scan_dirents current rest queue results
         else scan_dirents current rest queue (results @ [path_join current [dname]]))"
| "scan_dirents current ((dname, Dir es) # rest) queue results =
     (if dname = lit ''node_modules'' \<or> startsWith dname (lit ''.'')
      then scan_dirents current rest queue results
      else scan_dirents current rest (queue @ [(path_join current [dname], es)]) results)"

definition listing_weight :: "dirent list \<Rightarrow> nat" where
  "listing_weight es = sum_list (map (\<lambda>e. size (snd e)) es)"

definition queue_weight :: "(path \<times> dirent list) list \<Rightarrow> nat" where
  "queue_weight queue = sum_list (map (\<lambda>q. Suc (listing_weight (snd q))) queue)"

lemma size_Dir_listing: "listing_weight es < size (Dir es)"
  by (induction es) (auto simp: listing_weight_def)

lemma scan_dirents_weight:
  "queue_weight (fst (scan_dirents current es queue results))
     \<le> queue_weight queue + listing_weight es"
proof (induction current es queue results rule: scan_dirents.induct)
  case (1 current queue results)
  then show ?case by simp
next
  case (2 current dname body rest queue results)
  then show ?case
    by (auto simp: Let_def listing_weight_def intro: le_trans)
next
  case (3 current dname es rest queue results)
  have "Suc (listing_weight es) \<le> size (Dir es)"
    using size_Dir_listing [of es] by simp
  with 3 show ?case
    by (auto simp: queue_weight_def listing_weight_def simp del: fsnode.size)
qed

text \<open>The \<^verbatim>\<open>while (queue.length > 0)\<close> loop: the directory popped is the last of the queue.\<close>

function collect_loop :: "(path \<times> dirent list) list \<Rightarrow> path list \<Rightarrow> path list" where
  "collect_loop queue results =
     (if queue = [] then results
      else case scan_dirents (fst (last queue)) (snd (last queue)) (butlast queue) results of
             (queue', results') \<Rightarrow> collect_loop queue' results')"
  by pat_completeness auto
termination
proof (relation "measure (\<lambda>(queue, results). queue_weight queue)")
  show "wf (measure (\<lambda>(queue, results). queue_weight queue))" by simp
next
  fix queue :: "(path \<times> dirent list) list" and results x y
  assume ne: "queue \<noteq> []"
    and xy: "(x, y) = scan_dirents (fst (last queue)) (snd (last queue)) (butlast queue) results"
  have "queue_weight x \<le> queue_weight (butlast queue) + listing_weight (snd (last queue))"
    using scan_dirents_weight [of "fst (last queue)" "snd (last queue)" "butlast queue" results]
      xy by (metis fst_conv)
  moreover have "queue_weight (butlast queue @ [last queue])
      = queue_weight (butlast queue) + Suc (listing_weight (snd (last queue)))"
    by (simp add: queue_weight_def)
  then have "queue_weight queue
      = queue_weight (butlast queue) + Suc (listing_weight (snd (last queue)))"
    using ne by simp
  ultimately show "((x, y), (queue, results)) \<in> measure (\<lambda>(queue, results). queue_weight queue)"
    by simp
qed

declare collect_loop.simps [simp del]

definition collectCssFiles :: "fsnode \<Rightarrow> path \<Rightarrow> error + path list" where
  "collectCssFiles fs startDir =
     (case readdirSync fs startDir of
        Inl e \<Rightarrow> Inl e
      | Inr dirEntries \<Rightarrow> Inr (collect_loop [(startDir, dirEntries)] []))"

text \<open>\<^verbatim>\<open>Array.from(new Set(xs))\<close>: each element once, at the place of its first occurrence.\<close>

definition set_add :: "'a list \<Rightarrow> 'a \<Rightarrow> 'a list" where
  "set_add seen x = (if x \<in> set seen then seen else seen @ [x])"

definition array_from_set :: "'a list \<Rightarrow> 'a list" where
  "array_from_set xs = foldl set_add [] xs"

text \<open>\<^verbatim>\<open>entrySource.replace(/\r\n/g, '\n')\<close>.\<close>

fun replace_crlf :: "jsstring \<Rightarrow> jsstring" where
  "replace_crlf (c # d # rest) =
     (if c = 0x0D \<and> d = 0x0A then 0x0A # replace_crlf rest else c # replace_crlf (d # rest))"
| "replace_crlf s = s"

text \<open>
  The test of \<^verbatim>\<open>new RegExp(`import\\s+['"]${escapeForRegex(rel)}['"]`)\<close> against a text.
  \<^verbatim>\<open>escapeForRegex\<close> puts a backslash before every character that has a meaning in a
  regular expression, so \<open>rel\<close> stands for itself: the word \<^verbatim>\<open>import\<close>, at least one
  white-space character, a quote, the text \<open>rel\<close>, a quote.
\<close>

definition import_match_here :: "jsstring \<Rightarrow> jsstring \<Rightarrow> bool" where
  "import_match_here rel s =
     (case strip_prefix (lit ''import'') s of
        None \<Rightarrow> False
      | Some r1 \<Rightarrow>
          takeWhile is_space r1 \<noteq> [] \<and>
          (case dropWhile is_space r1 of
             [] \<Rightarrow> False
           | q1 # r2 \<Rightarrow>
               is_quote q1 \<and>
               (case strip_prefix rel r2 of
                  None \<Rightarrow> False
                | Some r3 \<Rightarrow> (case r3 of [] \<Rightarrow> False | q2 # r4 \<Rightarrow> is_quote q2))))"

fun import_regex_test :: "jsstring \<Rightarrow> jsstring \<Rightarrow> bool" where
  "import_regex_test rel [] = import_match_here rel []"
| "import_regex_test rel (c # cs) = (import_match_here rel (c # cs) \<or> import_regex_test rel cs)"

definition normalizedRelative :: "path \<Rightarrow> path \<Rightarrow> jsstring" where
  "normalizedRelative entryDir cssPath =
     (let relative = path_relative entryDir cssPath
      in if startsWith relative (lit ''.'') then relative else lit ''./'' @ relative)"

definition filterCssAlreadyImported :: "path list \<Rightarrow> path \<Rightarrow> jsstring \<Rightarrow> path list" where
  "filterCssAlreadyImported cssPaths file source =
     (let entryDir = path_dirname file;
          normalizedSource = replace_crlf source
      in filter (\<lambda>cssPath. \<not> import_regex_test (normalizedRelative entryDir cssPath) normalizedSource)
           cssPaths)"

definition selectCss :: "fsnode \<Rightarrow> path \<Rightarrow> entry_target \<Rightarrow> error + path list" where
  "selectCss fs web target =
     (let globalCss = filter (existsSync fs) (map (path_join (SRC_ROOT web)) GLOBAL_CSS_CANDIDATES)
      in case collectCssFiles fs (path_dirname (entryFile target)) of
           Inl e \<Rightarrow> Inl e
         | Inr perEntryCss \<Rightarrow>
             let deduped = array_from_set (globalCss @ perEntryCss)
             in Inr (filterCssAlreadyImported deduped (entryFile target) (entrySource target)))"

text \<open>
  Going down from a listing through directories of the given names, in turn, ends at a
  listing.
\<close>

fun descends :: "jsstring list \<Rightarrow> dirent list \<Rightarrow> dirent list \<Rightarrow> bool" where
  "descends [] es es' = (es' = es)"
| "descends (d # ds) es es' =
     list_ex (\<lambda>e. fst e = d \<and> (case snd e of Dir sub \<Rightarrow> descends ds sub es' | File body \<Rightarrow> False)) es"

definition allowed_dirs :: "jsstring list \<Rightarrow> bool" where
  "allowed_dirs dirs =
     list_all (\<lambda>d. d \<noteq> lit ''node_modules'' \<and> \<not> startsWith d (lit ''.'')) dirs"

text \<open>
  A path that the scan may collect: a file below the start directory, reached through
  allowed directories only, with a stylesheet extension and not a module stylesheet.
\<close>

definition collectable :: "path \<Rightarrow> dirent list \<Rightarrow> path \<Rightarrow> bool" where
  "collectable startDir listing p \<longleftrightarrow>
     (\<exists>dirs fname body es.
        p = startDir @ dirs @ [fname] \<and> allowed_dirs dirs \<and> descends dirs listing es
        \<and> (fname, File body) \<in> set es
        \<and> toLowerCase (path_extname fname) \<in> CSS_EXTENSIONS
        \<and> \<not> CSS_MODULE_REGEX_test fname)"

text \<open>
  What the pattern of the import test denotes, as a decomposition of the text: a side-effect
  import of the path \<open>rel\<close>, that is the word \<^verbatim>\<open>import\<close>, white space, a quote, \<open>rel\<close>, a
  quote.
\<close>

definition import_stmt_in :: "jsstring \<Rightarrow> jsstring \<Rightarrow> bool" where
  "import_stmt_in src rel \<longleftrightarrow>
     (\<exists>pre ws q1 q2 post.
        src = pre @ lit ''import'' @ ws @ [q1] @ rel @ [q2] @ post
        \<and> ws \<noteq> [] \<and> (\<forall>c \<in> set ws. is_space c) \<and> is_quote q1 \<and> is_quote q2)"

section \<open>The build run\<close>

record manifest_entry =
  js :: jsstring
  css :: "jsstring option"
  rootId :: jsstring

text \<open>
  The object \<^verbatim>\<open>manifest\<close>: its own properties, in the order of their creation. The
  assignment \<^verbatim>\<open>manifest[key] = value\<close> replaces the value of a key that is present and adds
  the key otherwise; only the key \<^verbatim>\<open>__proto__\<close> is different, because an object made by
  \<^verbatim>\<open>{}\<close> inherits a setter of that name, which changes the prototype and adds no
  property. (\<^verbatim>\<open>JSON.stringify\<close> writes the object's own properties; it puts keys that are
  array indices first, which this list does not show.)
\<close>

type_synonym manifest = "(jsstring \<times> manifest_entry) list"

definition manifest_assign :: "manifest \<Rightarrow> jsstring \<Rightarrow> manifest_entry \<Rightarrow> manifest" where
  "manifest_assign m key v = (if key = lit ''__proto__'' then m else AList.update key v m)"

text \<open>What the script gives the bundler for one target, on top of the base configuration.\<close>

record entry_config =
  input :: jsstring
  wrappedEntry :: path
  cssPaths :: "path list"
  outDir :: path
  entryFileNames :: jsstring
  cssAssetFileName :: jsstring

text \<open>
  The parts of the run that are not code of the script: \<^verbatim>\<open>loadConfigFromFile\<close> and \<^verbatim>\<open>build\<close>
  of the bundler, and \<^verbatim>\<open>JSON.stringify\<close>. A build takes the file system as it is and leaves
  it changed in whatever way, whether it returns or throws.
\<close>

record 'c externals =
  loadConfigFromFile :: "fsnode \<Rightarrow> error + 'c"
  build :: "'c \<Rightarrow> entry_config \<Rightarrow> fsnode \<Rightarrow> error option \<times> fsnode"
  JSON_stringify :: "manifest \<Rightarrow> jsstring"

text \<open>
  The state of a run: the file system and the record of what the run did to the outside, in
  order. A \<open>Build\<close> event keeps the configuration of the target and the file system the
  bundler was started on.
\<close>

datatype event = PrepareOutput | Build entry_config fsnode | WriteManifest manifest

record world =
  files :: fsnode
  events :: "event list"

definition prepareOutput :: "path \<Rightarrow> world \<Rightarrow> (error + unit) \<times> world" where
  "prepareOutput web w =
     (let removed = rmSync (OUT_DIR web) (files w);
          w1 = \<lparr>files = removed, events = events w @ [PrepareOutput]\<rparr>
      in case mkdirSync (OUT_DIR web) removed of
           None \<Rightarrow> (Inl (FsError (OUT_DIR web)), w1)
         | Some created \<Rightarrow> (Inr (), w1\<lparr>files := created\<rparr>))"

definition widgetJsPath :: "path \<Rightarrow> entry_target \<Rightarrow> path" where
  "widgetJsPath web target = path_join (OUT_DIR web) [name target @ lit ''.js'']"

definition widgetCssPath :: "path \<Rightarrow> entry_target \<Rightarrow> path" where
  "widgetCssPath web target = path_join (OUT_DIR web) [name target @ lit ''.css'']"

definition missing_js_message :: "path \<Rightarrow> entry_target \<Rightarrow> jsstring" where
  "missing_js_message web target =
     lit ''Expected JavaScript output for '' @ [0x22] @ name target @ [0x22]
       @ lit '' not found: '' @ path_str (widgetJsPath web target)"

definition entryConfig :: "path \<Rightarrow> entry_target \<Rightarrow> path list \<Rightarrow> entry_config" where
  "entryConfig web target cssToInclude =
     \<lparr>input = [0] @ lit ''virtual-entry:'' @ path_str (entryFile target),
      wrappedEntry = entryFile target,
      cssPaths = cssToInclude,
      outDir = OUT_DIR web,
      entryFileNames = name target @ lit ''.js'',
      cssAssetFileName = name target @ lit ''.css''\<rparr>"

text \<open>The body of the \<^verbatim>\<open>for (const target of entryTargets)\<close> loop of \<^verbatim>\<open>main\<close>, up to the
  record that is stored in the manifest.\<close>

definition build_target ::
  "'c externals \<Rightarrow> path \<Rightarrow> 'c \<Rightarrow> entry_target \<Rightarrow> world \<Rightarrow> (error + manifest_entry) \<times> world" where
  "build_target ext web baseConfig target w =
     (case selectCss (files w) web target of
        Inl e \<Rightarrow> (Inl e, w)
      | Inr cssToInclude \<Rightarrow>
          (case build ext baseConfig (entryConfig web target cssToInclude) (files w) of
             (thrown, built) \<Rightarrow>
               let w' = \<lparr>files = built,
                         events = events w @ [Build (entryConfig web target cssToInclude) (files w)]\<rparr>
               in case thrown of
                    Some e \<Rightarrow> (Inl e, w')
                  | None \<Rightarrow>
                      (case ensureFileExists built (widgetJsPath web target)
                              (missing_js_message web target) of
                         Inl e \<Rightarrow> (Inl e, w')
                       | Inr _ \<Rightarrow>
                           let cssExists = existsSync built (widgetCssPath web target)
                           in (Inr \<lparr>js = path_relative (path_join web [lit ''dist''])
                                           (widgetJsPath web target),
                                    css = (if cssExists
                                           then Some (path_relative (path_join web [lit ''dist''])
                                                        (widgetCssPath web target))
                                           else None),
                                    rootId = detectedRootId target\<rparr>, w'))))"

fun build_loop ::
  "'c externals \<Rightarrow> path \<Rightarrow> 'c \<Rightarrow> entry_target list \<Rightarrow> manifest \<Rightarrow> world
     \<Rightarrow> (error + manifest) \<times> world" where
  "build_loop ext web baseConfig [] m w = (Inr m, w)"
| "build_loop ext web baseConfig (target # rest) m w =
     (case build_target ext web baseConfig target w of
        (Inl e, w') \<Rightarrow> (Inl e, w')
      | (Inr entry, w') \<Rightarrow>
          build_loop ext web baseConfig rest (manifest_assign m (name target) entry) w')"

definition write_manifest :: "'c externals \<Rightarrow> path \<Rightarrow> manifest \<Rightarrow> world \<Rightarrow> (error + unit) \<times> world" where
  "write_manifest ext web m w =
     (case writeFileSync (MANIFEST_PATH web) (JSON_stringify ext m) (files w) of
        None \<Rightarrow> (Inl (FsError (MANIFEST_PATH web)), w)
      | Some written \<Rightarrow> (Inr (), \<lparr>files = written, events = events w @ [WriteManifest m]\<rparr>))"

definition main :: "'c externals \<Rightarrow> path \<Rightarrow> world \<Rightarrow> (error + unit) \<times> world" where
  "main ext web w =
     (case ensureDirectoryExists (files w) (SRC_ROOT web) of
        Inl e \<Rightarrow> (Inl e, w)
      | Inr _ \<Rightarrow>
          (case discoverEntries (files w) web of
             Inl e \<Rightarrow> (Inl e, w)
           | Inr entryTargets \<Rightarrow>
               if length entryTargets = 0 then (Inr (), w)
               else (case prepareOutput web w of
                       (Inl e, w1) \<Rightarrow> (Inl e, w1)
                     | (Inr _, w1) \<Rightarrow>
                         (case loadConfigFromFile ext (files w1) of
                            Inl e \<Rightarrow> (Inl e, w1)
                          | Inr baseConfig \<Rightarrow>
                              (case build_loop ext web baseConfig entryTargets [] w1 of
                                 (Inl e, w2) \<Rightarrow> (Inl e, w2)
                               | (Inr m, w2) \<Rightarrow> write_manifest ext web m w2)))))"

text \<open>
  The process: \<^verbatim>\<open>main().catch(...)\<close> sets the exit code to 1 when \<^verbatim>\<open>main\<close> throws; otherwise
  the exit code stays 0.
\<close>

record outcome =
  exitCode :: nat
  caught :: "error option"
  final :: world

definition run :: "'c externals \<Rightarrow> path \<Rightarrow> fsnode \<Rightarrow> outcome" where
  "run ext web fs =
     (case main ext web \<lparr>files = fs, events = []\<rparr> of
        (Inl e, w) \<Rightarrow> \<lparr>exitCode = 1, caught = Some e, final = w\<rparr>
      | (Inr _, w) \<Rightarrow> \<lparr>exitCode = 0, caught = None, final = w\<rparr>)"

text \<open>Reading the record of a run.\<close>

fun is_build :: "event \<Rightarrow> bool" where
  "is_build (Build cfg snapshot) = True"
| "is_build e = False"



section \<open>Sample inputs\<close>

definition web0 :: path where
  "web0 = [lit ''web'']"

text \<open>
  A project with the one widget \<^verbatim>\<open>hello-world\<close> and, from an earlier run, a bundle and a
  manifest of a widget \<^verbatim>\<open>old\<close> in the output directory.
\<close>

definition stale_widgets :: fsnode where
  "stale_widgets = Dir [(lit ''old.js'', File []), (lit ''manifest.json'', File (lit ''old''))]"

definition fs_hello :: fsnode where
  "fs_hello =
     Dir [(lit ''web'',
           Dir [(lit ''src'',
                 Dir [(lit ''hello-world'',
                       Dir [(lit ''index.tsx'', File hello_source),
                            (lit ''index.css'', File [])])]),
                (lit ''dist'', Dir [(lit ''widgets'', stale_widgets)])])]"

text \<open>The same project without any widget directory under \<^verbatim>\<open>src\<close>.\<close>

definition fs_no_widgets :: fsnode where
  "fs_no_widgets =
     Dir [(lit ''web'',
           Dir [(lit ''src'', Dir [(lit ''README.md'', File [])]),
                (lit ''dist'', Dir [(lit ''widgets'', stale_widgets)])])]"

text \<open>A project without the directory \<^verbatim>\<open>src\<close>.\<close>

definition fs_no_src :: fsnode where
  "fs_no_src = Dir [(lit ''web'', Dir [(lit ''dist'', Dir [(lit ''widgets'', stale_widgets)])])]"

text \<open>
  Three bundlers: one writes the script and the stylesheet of the target into the output
  directory, one returns without writing anything, one throws.
\<close>

definition keys_text :: "manifest \<Rightarrow> jsstring" where
  "keys_text m = concat (map (\<lambda>e. fst e @ [0x0A]) m)"

definition ext_writing :: "unit externals" where
  "ext_writing =
     \<lparr>loadConfigFromFile = (\<lambda>fs. Inr ()),
      build = (\<lambda>base cfg fs.
         case writeFileSync (path_join (outDir cfg) [entryFileNames cfg]) [] fs of
           None \<Rightarrow> (Some (External (lit ''cannot write'')), fs)
         | Some fs1 \<Rightarrow>
             (case writeFileSync (path_join (outDir cfg) [cssAssetFileName cfg]) [] fs1 of
                None \<Rightarrow> (Some (External (lit ''cannot write'')), fs1)
              | Some fs2 \<Rightarrow> (None, fs2))),
      JSON_stringify = keys_text\<rparr>"

definition ext_silent :: "unit externals" where
  "ext_silent =
     \<lparr>loadConfigFromFile = (\<lambda>fs. Inr ()),
      build = (\<lambda>base cfg fs. (None, fs)),
      JSON_stringify = keys_text\<rparr>"


definition hello_target :: entry_target where
  "hello_target =
     \<lparr>name = lit ''hello-world'',
      entryFile = [lit ''web'', lit ''src'', lit ''hello-world'', lit ''index.tsx''],
      entrySource = hello_source,
      detectedRootId = lit ''hello-world-root''\<rparr>"

text \<open>The sample project after \<^verbatim>\<open>prepareOutput\<close>.\<close>

definition fs_hello_reset :: fsnode where
  "fs_hello_reset =
     Dir [(lit ''web'',
           Dir [(lit ''src'',
                 Dir [(lit ''hello-world'',
                       Dir [(lit ''index.tsx'', File hello_source),
                            (lit ''index.css'', File [])])]),
                (lit ''dist'', Dir [(lit ''widgets'', Dir [])])])]"

text \<open>A bundler that writes the script of the target and no stylesheet.\<close>

definition ext_js_only :: "unit externals" where
  "ext_js_only =
     \<lparr>loadConfigFromFile = (\<lambda>fs. Inr ()),
      build = (\<lambda>base cfg fs.
         case writeFileSync (path_join (outDir cfg) [entryFileNames cfg]) [] fs of
           None \<Rightarrow> (Some (External (lit ''cannot write'')), fs)
         | Some fs1 \<Rightarrow> (None, fs1)),
      JSON_stringify = keys_text\<rparr>"

definition fs_hello_js :: fsnode where
  "fs_hello_js =
     Dir [(lit ''web'',
           Dir [(lit ''src'',
                 Dir [(lit ''hello-world'',
                       Dir [(lit ''index.tsx'', File hello_source),
                            (lit ''index.css'', File [])])]),
                (lit ''dist'',
                 Dir [(lit ''widgets'', Dir [(lit ''hello-world.js'', File [])])])])]"

text \<open>The sample project after the build by the bundler that writes both files.\<close>

definition fs_hello_built :: fsnode where
  "fs_hello_built =
     Dir [(lit ''web'',
           Dir [(lit ''src'',
                 Dir [(lit ''hello-world'',
                       Dir [(lit ''index.tsx'', File hello_source),
                            (lit ''index.css'', File [])])]),
                (lit ''dist'',
                 Dir [(lit ''widgets'',
                       Dir [(lit ''hello-world.js'', File []),
                            (lit ''hello-world.css'', File [])])])])]"



text \<open>A widget directory with stylesheets of several kinds, some of them in directories.\<close>

definition styles_dir :: "dirent list" where
  "styles_dir =
     [(lit ''index.tsx'', File []),
      (lit ''a.css'', File []),
      (lit ''B.SCSS'', File []),
      (lit ''c.Module.css'', File []),
      (lit ''notes.txt'', File []),
      (lit ''sub'', Dir [(lit ''d.sass'', File [])]),
      (lit ''node_modules'', Dir [(lit ''x.css'', File [])]),
      (lit ''.cache'', Dir [(lit ''y.css'', File [])])]"

definition fs_styles :: fsnode where
  "fs_styles = Dir [(lit ''web'', Dir [(lit ''src'', Dir [(lit ''w'', Dir styles_dir)])])]"

text \<open>
  A project with a global stylesheet and a widget \<^verbatim>\<open>w\<close> whose entry file imports its own
  stylesheet with a default binding.
\<close>

definition binding_source :: jsstring where
  "binding_source = lit ''import styles from '' @ [0x27] @ lit ''./index.css'' @ [0x27]"

definition fs_binding :: fsnode where
  "fs_binding =
     Dir [(lit ''web'',
           Dir [(lit ''src'',
                 Dir [(lit ''index.css'', File []),
                      (lit ''w'',
                       Dir [(lit ''index.tsx'', File binding_source),
                            (lit ''index.css'', File [])])])])]"

definition binding_target :: entry_target where
  "binding_target =
     \<lparr>name = lit ''w'',
      entryFile = [lit ''web'', lit ''src'', lit ''w'', lit ''index.tsx''],
      entrySource = binding_source,
      detectedRootId = lit ''w-root''\<rparr>"

text \<open>
  A widget whose stylesheet has a name that starts with a dot, imported by the entry file in
  the usual form.
\<close>

definition dotfile_source :: jsstring where
  "dotfile_source = lit ''import '' @ [0x27] @ lit ''./.theme.css'' @ [0x27]"

definition fs_dotfile :: fsnode where
  "fs_dotfile =
     Dir [(lit ''web'',
           Dir [(lit ''src'',
                 Dir [(lit ''w'',
                       Dir [(lit ''index.tsx'', File dotfile_source),
                            (lit ''.theme.css'', File [])])])])]"

definition dotfile_target :: entry_target where
  "dotfile_target =
     \<lparr>name = lit ''w'',
      entryFile = [lit ''web'', lit ''src'', lit ''w'', lit ''index.tsx''],
      entrySource = dotfile_source,
      detectedRootId = lit ''w-root''\<rparr>"

text \<open>The sample project with a regular file \<^verbatim>\<open>dist\<close> where the directory should be.\<close>

definition fs_dist_file :: fsnode where
  "fs_dist_file =
     Dir [(lit ''web'',
           Dir [(lit ''src'',
                 Dir [(lit ''hello-world'',
                       Dir [(lit ''index.tsx'', File hello_source),
                            (lit ''index.css'', File [])])]),
                (lit ''dist'', File (lit ''not a directory''))])]"

text \<open>A configuration loader that throws.\<close>

definition ext_no_config :: "unit externals" where
  "ext_no_config =
     \<lparr>loadConfigFromFile = (\<lambda>fs. Inl (External (lit ''bad config''))),
      build = (\<lambda>base cfg fs. (None, fs)),
      JSON_stringify = keys_text\<rparr>"

text \<open>
  A project whose one widget directory is named \<^verbatim>\<open>__proto__\<close>, with an empty output directory,
  and the same project after the build by the bundler that writes both files and after the
  complete run.
\<close>

definition fs_proto :: fsnode where
  "fs_proto =
     Dir [(lit ''web'',
           Dir [(lit ''src'',
                 Dir [(lit ''__proto__'', Dir [(lit ''index.tsx'', File hello_source)])]),
                (lit ''dist'', Dir [(lit ''widgets'', Dir [])])])]"

definition proto_target :: entry_target where
  "proto_target =
     \<lparr>name = lit ''__proto__'',
      entryFile = [lit ''web'', lit ''src'', lit ''__proto__'', lit ''index.tsx''],
      entrySource = hello_source,
      detectedRootId = lit ''hello-world-root''\<rparr>"

definition fs_proto_built :: fsnode where
  "fs_proto_built =
     Dir [(lit ''web'',
           Dir [(lit ''src'',
                 Dir [(lit ''__proto__'', Dir [(lit ''index.tsx'', File hello_source)])]),
                (lit ''dist'',
                 Dir [(lit ''widgets'',
                       Dir [(lit ''__proto__.js'', File []),
                            (lit ''__proto__.css'', File [])])])])]"

definition fs_proto_done :: fsnode where
  "fs_proto_done =
     Dir [(lit ''web'',
           Dir [(lit ''src'',
                 Dir [(lit ''__proto__'', Dir [(lit ''index.tsx'', File hello_source)])]),
                (lit ''dist'',
                 Dir [(lit ''widgets'',
                       Dir [(lit ''__proto__.js'', File []),
                            (lit ''__proto__.css'', File []),
                            (lit ''manifest.json'', File (keys_text []))])])])]"

section \<open>Properties of entry-file resolution\<close>

lemma resolve_loop_None:
  "resolve_loop fs d cs = None \<longleftrightarrow> (\<forall>c \<in> set cs. \<not> existsSync fs (d @ [c]))"
  by (induction cs) (auto simp: path_join_def Let_def)

lemma resolve_loop_Some:
  "resolve_loop fs d cs = Some p \<Longrightarrow>
     \<exists>i < length cs. p = d @ [cs ! i] \<and> existsSync fs p \<and>
        (\<forall>j < i. \<not> existsSync fs (d @ [cs ! j]))"
proof (induction cs)
  case Nil
  then show ?case by simp
next
  case (Cons c cs)
  show ?case
  proof (cases "existsSync fs (d @ [c])")
    case True
    with Cons.prems have "p = d @ [c]"
      by (simp add: path_join_def)
    with True show ?thesis
      by (intro exI [of _ 0]) simp
  next
    case False
    with Cons.prems have "resolve_loop fs d cs = Some p"
      by (simp add: path_join_def)
    from Cons.IH [OF this] obtain i where i: "i < length cs" "p = d @ [cs ! i]"
      "existsSync fs p" "\<forall>j < i. \<not> existsSync fs (d @ [cs ! j])"
      by blast
    have "\<forall>j < Suc i. \<not> existsSync fs (d @ [(c # cs) ! j])"
      using False i(4) by (auto simp: less_Suc_eq_0_disj)
    with i(1-3) show ?thesis
      by (intro exI [of _ "Suc i"]) simp
  qed
qed

text \<open>
  C1 (as stated, refuted). For the directory holding \<^verbatim>\<open>index.ts\<close> and \<^verbatim>\<open>index.jsx\<close> the
  script resolves to \<^verbatim>\<open>index.jsx\<close>, while the first existing file under the order of the
  claim (typed before untyped-with-markup) is \<^verbatim>\<open>index.ts\<close>.
\<close>

theorem C1_claimed_order_counterexample:
  "resolveEntryFile fs_ts_jsx [lit ''w''] = Some [lit ''w'', lit ''index.jsx'']
   \<and> first_existing fs_ts_jsx [lit ''w''] claimed_entry_order = Some [lit ''w'', lit ''index.ts'']
   \<and> resolveEntryFile fs_ts_jsx [lit ''w''] \<noteq> first_existing fs_ts_jsx [lit ''w''] claimed_entry_order"
  by (simp add: resolveEntryFile_def ENTRY_FILES_def first_existing_def claimed_entry_order_def
      fs_ts_jsx_def existsSync_def path_join_def lit_def)

text \<open>
  C1 (amended). The candidates are the basenames \<^verbatim>\<open>index\<close> and then \<^verbatim>\<open>main\<close>, each with the
  extensions in the order \<^verbatim>\<open>.tsx\<close>, \<^verbatim>\<open>.jsx\<close>, \<^verbatim>\<open>.ts\<close>, \<^verbatim>\<open>.js\<close> (typed-with-markup,
  untyped-with-markup, typed, untyped). For every file system and directory,
  \<^verbatim>\<open>resolveEntryFile\<close> returns the first candidate of that list that exists in the
  directory, and \<^verbatim>\<open>null\<close> exactly when none exists.
\<close>

theorem C1_resolveEntryFile_first_existing:
  "ENTRY_FILES =
     [b @ e. b \<leftarrow> [lit ''index'', lit ''main''], e \<leftarrow> [lit ''.tsx'', lit ''.jsx'', lit ''.ts'', lit ''.js'']]
   \<and> (resolveEntryFile fs d = None \<longleftrightarrow> (\<forall>c \<in> set ENTRY_FILES. \<not> existsSync fs (d @ [c])))
   \<and> (\<forall>p. resolveEntryFile fs d = Some p \<longrightarrow>
         (\<exists>i < length ENTRY_FILES. p = d @ [ENTRY_FILES ! i] \<and> existsSync fs p \<and>
            (\<forall>j < i. \<not> existsSync fs (d @ [ENTRY_FILES ! j]))))"
proof (intro conjI allI impI)
  show "ENTRY_FILES =
     [b @ e. b \<leftarrow> [lit ''index'', lit ''main''], e \<leftarrow> [lit ''.tsx'', lit ''.jsx'', lit ''.ts'', lit ''.js'']]"
    by (simp add: ENTRY_FILES_def lit_def)
  show "resolveEntryFile fs d = None \<longleftrightarrow> (\<forall>c \<in> set ENTRY_FILES. \<not> existsSync fs (d @ [c]))"
    unfolding resolveEntryFile_def by (rule resolve_loop_None)
  fix p assume "resolveEntryFile fs d = Some p"
  then show "\<exists>i < length ENTRY_FILES. p = d @ [ENTRY_FILES ! i] \<and> existsSync fs p \<and>
            (\<forall>j < i. \<not> existsSync fs (d @ [ENTRY_FILES ! j]))"
    unfolding resolveEntryFile_def by (rule resolve_loop_Some)
qed

theorem C1_resolveEntryFile_first_existing_witness:
  "resolveEntryFile fs_ts_jsx [lit ''w''] = Some [lit ''w'', lit ''index.jsx'']
   \<and> (\<exists>i < length ENTRY_FILES. [lit ''w'', lit ''index.jsx''] = [lit ''w''] @ [ENTRY_FILES ! i]
        \<and> existsSync fs_ts_jsx [lit ''w'', lit ''index.jsx'']
        \<and> (\<forall>j < i. \<not> existsSync fs_ts_jsx ([lit ''w''] @ [ENTRY_FILES ! j])))"
proof -
  have r: "resolveEntryFile fs_ts_jsx [lit ''w''] = Some [lit ''w'', lit ''index.jsx'']"
    by (simp add: resolveEntryFile_def ENTRY_FILES_def fs_ts_jsx_def existsSync_def
        path_join_def lit_def)
  from C1_resolveEntryFile_first_existing [of fs_ts_jsx "[lit ''w'']"] r
  show ?thesis by blast
qed

text \<open>
  C2 (as stated, refuted). The directory holds the typed-with-markup file \<^verbatim>\<open>main.tsx\<close> and
  the untyped file \<^verbatim>\<open>index.js\<close>; resolution chooses \<^verbatim>\<open>index.js\<close>.
\<close>

theorem C2_tsx_over_js_counterexample:
  "existsSync fs_main_tsx_index_js [lit ''w'', lit ''main.tsx'']
   \<and> existsSync fs_main_tsx_index_js [lit ''w'', lit ''index.js'']
   \<and> resolveEntryFile fs_main_tsx_index_js [lit ''w''] = Some [lit ''w'', lit ''index.js'']
   \<and> resolveEntryFile fs_main_tsx_index_js [lit ''w''] \<noteq> Some [lit ''w'', lit ''main.tsx'']
   \<and> resolveEntryFile fs_main_tsx_index_js [lit ''w''] \<noteq> Some [lit ''w'', lit ''index.tsx'']"
  by (simp add: resolveEntryFile_def ENTRY_FILES_def fs_main_tsx_index_js_def existsSync_def
      path_join_def lit_def)

text \<open>
  C2 (amended). Resolution chooses \<^verbatim>\<open>index.tsx\<close> exactly when the directory holds it, and
  \<^verbatim>\<open>main.tsx\<close> exactly when the directory holds it and holds none of the four \<^verbatim>\<open>index.*\<close>
  candidates. So for a directory that holds both a typed-with-markup entry file and an untyped
  \<^verbatim>\<open>.js\<close> entry file, the file chosen is a typed-with-markup one exactly when the directory
  holds \<^verbatim>\<open>index.tsx\<close> or holds none of \<^verbatim>\<open>index.jsx\<close>, \<^verbatim>\<open>index.ts\<close>, \<^verbatim>\<open>index.js\<close>.
\<close>

theorem C2_tsx_chosen:
  "(resolveEntryFile fs d = Some (d @ [lit ''index.tsx''])
      \<longleftrightarrow> existsSync fs (d @ [lit ''index.tsx'']))
   \<and> (resolveEntryFile fs d = Some (d @ [lit ''main.tsx''])
      \<longleftrightarrow> existsSync fs (d @ [lit ''main.tsx''])
          \<and> \<not> existsSync fs (d @ [lit ''index.tsx''])
          \<and> \<not> existsSync fs (d @ [lit ''index.jsx''])
          \<and> \<not> existsSync fs (d @ [lit ''index.ts''])
          \<and> \<not> existsSync fs (d @ [lit ''index.js'']))
   \<and> ((existsSync fs (d @ [lit ''index.tsx'']) \<or> existsSync fs (d @ [lit ''main.tsx'']))
        \<and> (existsSync fs (d @ [lit ''index.js'']) \<or> existsSync fs (d @ [lit ''main.js'']))
      \<longrightarrow>
        ((resolveEntryFile fs d = Some (d @ [lit ''index.tsx''])
           \<or> resolveEntryFile fs d = Some (d @ [lit ''main.tsx'']))
         \<longleftrightarrow>
           (existsSync fs (d @ [lit ''index.tsx''])
            \<or> (\<not> existsSync fs (d @ [lit ''index.jsx''])
                \<and> \<not> existsSync fs (d @ [lit ''index.ts''])
                \<and> \<not> existsSync fs (d @ [lit ''index.js''])))))"
proof -
  have i: "resolveEntryFile fs d = Some (d @ [lit ''index.tsx''])
             \<longleftrightarrow> existsSync fs (d @ [lit ''index.tsx''])"
    by (simp add: resolveEntryFile_def ENTRY_FILES_def path_join_def Let_def lit_def)
  have m: "resolveEntryFile fs d = Some (d @ [lit ''main.tsx''])
      \<longleftrightarrow> existsSync fs (d @ [lit ''main.tsx''])
          \<and> \<not> existsSync fs (d @ [lit ''index.tsx''])
          \<and> \<not> existsSync fs (d @ [lit ''index.jsx''])
          \<and> \<not> existsSync fs (d @ [lit ''index.ts''])
          \<and> \<not> existsSync fs (d @ [lit ''index.js''])"
    by (simp add: resolveEntryFile_def ENTRY_FILES_def path_join_def Let_def lit_def)
  from i m show ?thesis by blast
qed

theorem C2_tsx_chosen_witness:
  "existsSync fs_index_tsx_js ([lit ''w''] @ [lit ''index.tsx''])
   \<and> existsSync fs_index_tsx_js ([lit ''w''] @ [lit ''index.js''])
   \<and> resolveEntryFile fs_index_tsx_js [lit ''w''] = Some [lit ''w'', lit ''index.tsx'']
   \<and> existsSync fs_main_tsx_js ([lit ''w''] @ [lit ''main.tsx''])
   \<and> existsSync fs_main_tsx_js ([lit ''w''] @ [lit ''main.js''])
   \<and> resolveEntryFile fs_main_tsx_js [lit ''w''] = Some [lit ''w'', lit ''main.tsx'']
   \<and> existsSync fs_main_tsx_index_js ([lit ''w''] @ [lit ''main.tsx''])
   \<and> existsSync fs_main_tsx_index_js ([lit ''w''] @ [lit ''index.js''])
   \<and> resolveEntryFile fs_main_tsx_index_js [lit ''w''] \<noteq> Some [lit ''w'', lit ''main.tsx'']
   \<and> resolveEntryFile fs_main_tsx_index_js [lit ''w''] \<noteq> Some [lit ''w'', lit ''index.tsx'']"
proof -
  have a: "existsSync fs_index_tsx_js ([lit ''w''] @ [lit ''index.tsx''])"
    "existsSync fs_index_tsx_js ([lit ''w''] @ [lit ''index.js''])"
    by (simp_all add: fs_index_tsx_js_def existsSync_def lit_def)
  have b: "existsSync fs_main_tsx_js ([lit ''w''] @ [lit ''main.tsx''])"
    "existsSync fs_main_tsx_js ([lit ''w''] @ [lit ''main.js''])"
    "\<not> existsSync fs_main_tsx_js ([lit ''w''] @ [lit ''index.tsx''])"
    "\<not> existsSync fs_main_tsx_js ([lit ''w''] @ [lit ''index.jsx''])"
    "\<not> existsSync fs_main_tsx_js ([lit ''w''] @ [lit ''index.ts''])"
    "\<not> existsSync fs_main_tsx_js ([lit ''w''] @ [lit ''index.js''])"
    by (simp_all add: fs_main_tsx_js_def existsSync_def lit_def)
  have c: "existsSync fs_main_tsx_index_js ([lit ''w''] @ [lit ''main.tsx''])"
    "existsSync fs_main_tsx_index_js ([lit ''w''] @ [lit ''index.js''])"
    "\<not> existsSync fs_main_tsx_index_js ([lit ''w''] @ [lit ''index.tsx''])"
    by (simp_all add: fs_main_tsx_index_js_def existsSync_def lit_def)
  from C2_tsx_chosen [of fs_index_tsx_js "[lit ''w'']"] a
  have 1: "resolveEntryFile fs_index_tsx_js [lit ''w''] = Some [lit ''w'', lit ''index.tsx'']"
    by simp
  from C2_tsx_chosen [of fs_main_tsx_js "[lit ''w'']"] b
  have 2: "resolveEntryFile fs_main_tsx_js [lit ''w''] = Some [lit ''w'', lit ''main.tsx'']"
    by simp
  from C2_tsx_chosen [of fs_main_tsx_index_js "[lit ''w'']"] c
  have 3: "resolveEntryFile fs_main_tsx_index_js [lit ''w''] \<noteq> Some [lit ''w'', lit ''main.tsx'']"
    "resolveEntryFile fs_main_tsx_index_js [lit ''w''] \<noteq> Some [lit ''w'', lit ''index.tsx'']"
    by simp_all
  from a b(1,2) c(1,2) 1 2 3 show ?thesis by simp
qed

section \<open>Properties of the mount-identifier detection\<close>

lemma strip_prefix_Some: "strip_prefix p s = Some r \<longleftrightarrow> s = p @ r"
  by (induction p s rule: strip_prefix.induct) auto

lemma strip_prefix_None: "strip_prefix p s = None \<longleftrightarrow> (\<forall>r. s \<noteq> p @ r)"
  by (induction p s rule: strip_prefix.induct) auto

lemma not_space_LPAREN: "\<not> is_space LPAREN"
  by (simp add: is_space_def LPAREN_def)

lemma not_space_RPAREN: "\<not> is_space RPAREN"
  by (simp add: is_space_def RPAREN_def)

lemma not_space_quote: "is_quote q \<Longrightarrow> \<not> is_space q"
  by (auto simp: is_space_def is_quote_def)

lemma rootid_match_here_complete:
  assumes s: "s = lit ''getElementById'' @ ws1 @ [LPAREN] @ ws2 @ [q1] @ arg @ [q2] @ ws3
                    @ [RPAREN] @ rest"
    and ws: "\<forall>c \<in> set ws1. is_space c" "\<forall>c \<in> set ws2. is_space c" "\<forall>c \<in> set ws3. is_space c"
    and q: "is_quote q1" "is_quote q2"
    and arg: "arg \<noteq> []" "\<forall>c \<in> set arg. \<not> is_quote c"
  shows "rootid_match_here s = Some arg"
proof -
  have 1: "strip_prefix (lit ''getElementById'') s
             = Some (ws1 @ LPAREN # ws2 @ q1 # arg @ q2 # ws3 @ RPAREN # rest)"
    by (simp add: strip_prefix_Some s)
  have 2: "dropWhile is_space (ws1 @ LPAREN # ws2 @ q1 # arg @ q2 # ws3 @ RPAREN # rest)
             = LPAREN # ws2 @ q1 # arg @ q2 # ws3 @ RPAREN # rest"
    using ws(1) by (simp add: dropWhile_append2 not_space_LPAREN)
  have 3: "dropWhile is_space (ws2 @ q1 # arg @ q2 # ws3 @ RPAREN # rest)
             = q1 # arg @ q2 # ws3 @ RPAREN # rest"
    using ws(2) q(1) by (simp add: dropWhile_append2 not_space_quote)
  have 4: "takeWhile (\<lambda>c. \<not> is_quote c) (arg @ q2 # ws3 @ RPAREN # rest) = arg"
    using arg(2) q(2) by (simp add: takeWhile_append2)
  have 5: "dropWhile (\<lambda>c. \<not> is_quote c) (arg @ q2 # ws3 @ RPAREN # rest)
             = q2 # ws3 @ RPAREN # rest"
    using arg(2) q(2) by (simp add: dropWhile_append2)
  have 6: "dropWhile is_space (ws3 @ RPAREN # rest) = RPAREN # rest"
    using ws(3) by (simp add: dropWhile_append2 not_space_RPAREN)
  show ?thesis
    unfolding rootid_match_here_def 1 option.case 2 list.case 3 4 5 6 Let_def
    using q(1) arg(1) by simp
qed

lemma rootid_match_here_sound:
  assumes "rootid_match_here s = Some arg"
  shows "\<exists>ws1 ws2 q1 q2 ws3 rest.
           s = lit ''getElementById'' @ ws1 @ [LPAREN] @ ws2 @ [q1] @ arg @ [q2] @ ws3
                 @ [RPAREN] @ rest
           \<and> (\<forall>c \<in> set ws1. is_space c) \<and> (\<forall>c \<in> set ws2. is_space c)
           \<and> (\<forall>c \<in> set ws3. is_space c)
           \<and> is_quote q1 \<and> is_quote q2 \<and> arg \<noteq> [] \<and> (\<forall>c \<in> set arg. \<not> is_quote c)"
proof -
  from assms obtain r1 where r1: "strip_prefix (lit ''getElementById'') s = Some r1"
    by (auto simp: rootid_match_here_def split: option.splits)
  from assms r1 obtain r2 where r2: "dropWhile is_space r1 = LPAREN # r2"
    by (auto simp: rootid_match_here_def split: list.splits if_splits)
  from assms r1 r2 obtain q1 r3 where r3: "dropWhile is_space r2 = q1 # r3" and q1: "is_quote q1"
    by (auto simp: rootid_match_here_def split: list.splits if_splits)
  from assms r1 r2 r3 q1 have arg: "arg = takeWhile (\<lambda>c. \<not> is_quote c) r3" "arg \<noteq> []"
    by (auto simp: rootid_match_here_def Let_def split: list.splits if_splits)
  from assms r1 r2 r3 q1 obtain q2 r4 where r4: "dropWhile (\<lambda>c. \<not> is_quote c) r3 = q2 # r4"
    by (auto simp: rootid_match_here_def Let_def split: list.splits if_splits)
  from assms r1 r2 r3 q1 r4 obtain r5 where r5: "dropWhile is_space r4 = RPAREN # r5"
    by (auto simp: rootid_match_here_def Let_def split: list.splits if_splits)
  have q2: "is_quote q2"
    using hd_dropWhile [of "\<lambda>c. \<not> is_quote c" r3] r4 by simp
  have e1: "r1 = takeWhile is_space r1 @ LPAREN # r2"
    using takeWhile_dropWhile_id [of is_space r1] r2 by simp
  have e2: "r2 = takeWhile is_space r2 @ q1 # r3"
    using takeWhile_dropWhile_id [of is_space r2] r3 by simp
  have e3: "r3 = arg @ q2 # r4"
    using takeWhile_dropWhile_id [of "\<lambda>c. \<not> is_quote c" r3] r4 arg(1) by simp
  have e4: "r4 = takeWhile is_space r4 @ RPAREN # r5"
    using takeWhile_dropWhile_id [of is_space r4] r5 by simp
  have s: "s = lit ''getElementById'' @ r1"
    using r1 by (simp add: strip_prefix_Some)
  have "s = lit ''getElementById'' @ takeWhile is_space r1 @ [LPAREN] @ takeWhile is_space r2
              @ [q1] @ arg @ [q2] @ takeWhile is_space r4 @ [RPAREN] @ r5"
    using s e1 e2 e3 e4 by simp
  moreover have "\<forall>c \<in> set (takeWhile is_space r1). is_space c"
    "\<forall>c \<in> set (takeWhile is_space r2). is_space c"
    "\<forall>c \<in> set (takeWhile is_space r4). is_space c"
    by (auto dest: set_takeWhileD)
  moreover have "\<forall>c \<in> set arg. \<not> is_quote c"
    unfolding arg(1) by (auto dest: set_takeWhileD)
  ultimately show ?thesis
    using q1 q2 arg(2) by blast
qed

lemma rootid_call_at_0: "rootid_call_at s 0 arg \<longleftrightarrow> rootid_match_here s = Some arg"
  unfolding rootid_call_at_def
  using rootid_match_here_sound [of s arg] rootid_match_here_complete [of s _ _ _ arg]
  by (auto simp del: append_assoc append.simps)

lemma rootid_call_at_Suc: "rootid_call_at (c # cs) (Suc i) arg \<longleftrightarrow> rootid_call_at cs i arg"
  by (simp add: rootid_call_at_def)

lemma rootid_match_None: "rootid_match s = None \<longleftrightarrow> (\<forall>i arg. \<not> rootid_call_at s i arg)"
proof (induction s)
  case Nil
  show ?case
  proof
    assume "rootid_match [] = None"
    then have "\<forall>arg. \<not> rootid_call_at [] 0 arg"
      by (simp add: rootid_call_at_0)
    then show "\<forall>i arg. \<not> rootid_call_at [] i arg"
      by (simp add: rootid_call_at_def)
  next
    assume "\<forall>i arg. \<not> rootid_call_at [] i arg"
    then have "\<forall>arg. rootid_match_here [] \<noteq> Some arg"
      by (simp add: rootid_call_at_0 [symmetric])
    then show "rootid_match [] = None" by simp
  qed
next
  case (Cons c cs)
  show ?case
  proof
    assume n: "rootid_match (c # cs) = None"
    then have h: "rootid_match_here (c # cs) = None" and t: "rootid_match cs = None"
      by (auto split: option.splits)
    show "\<forall>i arg. \<not> rootid_call_at (c # cs) i arg"
    proof (intro allI)
      fix i arg
      show "\<not> rootid_call_at (c # cs) i arg"
      proof (cases i)
        case 0
        with h show ?thesis by (simp add: rootid_call_at_0)
      next
        case (Suc j)
        with t Cons.IH show ?thesis by (simp add: rootid_call_at_Suc)
      qed
    qed
  next
    assume a: "\<forall>i arg. \<not> rootid_call_at (c # cs) i arg"
    then have "\<forall>arg. \<not> rootid_call_at (c # cs) 0 arg" by blast
    then have h: "rootid_match_here (c # cs) = None"
      by (simp add: rootid_call_at_0)
    from a have "\<forall>i arg. \<not> rootid_call_at (c # cs) (Suc i) arg" by blast
    then have "rootid_match cs = None"
      using Cons.IH by (simp add: rootid_call_at_Suc)
    with h show "rootid_match (c # cs) = None" by simp
  qed
qed

lemma rootid_match_first:
  "rootid_call_at s i arg \<Longrightarrow> (\<forall>j < i. \<forall>a. \<not> rootid_call_at s j a) \<Longrightarrow> rootid_match s = Some arg"
proof (induction s arbitrary: i)
  case Nil
  then have "i = 0" by (simp add: rootid_call_at_def)
  with Nil show ?case by (simp add: rootid_call_at_0)
next
  case (Cons c cs)
  show ?case
  proof (cases i)
    case 0
    with Cons.prems show ?thesis by (simp add: rootid_call_at_0)
  next
    case (Suc k)
    from Cons.prems(2) Suc have "\<forall>a. \<not> rootid_call_at (c # cs) 0 a" by blast
    then have h: "rootid_match_here (c # cs) = None"
      by (simp add: rootid_call_at_0)
    from Cons.prems(1) Suc have k: "rootid_call_at cs k arg"
      by (simp add: rootid_call_at_Suc)
    have "\<forall>j < k. \<forall>a. \<not> rootid_call_at cs j a"
    proof (intro allI impI)
      fix j a assume "j < k"
      then have "Suc j < i" using Suc by simp
      with Cons.prems(2) have "\<not> rootid_call_at (c # cs) (Suc j) a" by blast
      then show "\<not> rootid_call_at cs j a" by (simp add: rootid_call_at_Suc)
    qed
    from Cons.IH [OF k this] h show ?thesis by simp
  qed
qed

lemma rootid_call_at_nonempty: "rootid_call_at s i arg \<Longrightarrow> arg \<noteq> []"
  by (auto simp: rootid_call_at_def)

text \<open>
  C6. For every entry source text and fallback name: when the text holds a lookup call
  \<^verbatim>\<open>getElementById\<close>, optional white space, \<^verbatim>\<open>(\<close>, optional white space, a quote, a
  non-empty argument without quotes, a quote, optional white space and \<^verbatim>\<open>)\<close>, then
  \<^verbatim>\<open>detectRootId\<close> returns the argument of the leftmost such call, unchanged; when the text
  holds no such call, it returns the fallback name followed by \<^verbatim>\<open>-root\<close>.
\<close>

theorem C6_detectRootId:
  "(rootid_call_at src i arg \<and> (\<forall>j < i. \<forall>a. \<not> rootid_call_at src j a)
      \<longrightarrow> detectRootId src fallbackName = arg)
   \<and> ((\<forall>i a. \<not> rootid_call_at src i a)
      \<longrightarrow> detectRootId src fallbackName = fallbackName @ lit ''-root'')"
proof (intro conjI impI)
  assume a: "rootid_call_at src i arg \<and> (\<forall>j < i. \<forall>a. \<not> rootid_call_at src j a)"
  then have "rootid_match src = Some arg"
    using rootid_match_first by blast
  moreover from a have "arg \<noteq> []"
    using rootid_call_at_nonempty by blast
  ultimately show "detectRootId src fallbackName = arg"
    by (simp add: detectRootId_def)
next
  assume "\<forall>i a. \<not> rootid_call_at src i a"
  then have "rootid_match src = None"
    by (simp add: rootid_match_None)
  then show "detectRootId src fallbackName = fallbackName @ lit ''-root''"
    by (simp add: detectRootId_def)
qed

lemma rootid_match_Some:
  "rootid_match s = Some arg \<Longrightarrow>
     \<exists>i. rootid_call_at s i arg \<and> (\<forall>j < i. \<forall>a. \<not> rootid_call_at s j a)"
proof (induction s)
  case Nil
  then have "rootid_call_at [] 0 arg"
    by (simp add: rootid_call_at_0)
  then show ?case by (intro exI [of _ 0]) simp
next
  case (Cons c cs)
  show ?case
  proof (cases "rootid_match_here (c # cs)")
    case (Some g)
    with Cons.prems have "rootid_call_at (c # cs) 0 arg"
      by (simp add: rootid_call_at_0)
    then show ?thesis by (intro exI [of _ 0]) simp
  next
    case None
    with Cons.prems have "rootid_match cs = Some arg" by simp
    from Cons.IH [OF this] obtain i where i: "rootid_call_at cs i arg"
      "\<forall>j < i. \<forall>a. \<not> rootid_call_at cs j a"
      by blast
    have "\<forall>j < Suc i. \<forall>a. \<not> rootid_call_at (c # cs) j a"
    proof (intro allI impI)
      fix j a assume j: "j < Suc i"
      show "\<not> rootid_call_at (c # cs) j a"
      proof (cases j)
        case 0
        with None show ?thesis by (simp add: rootid_call_at_0)
      next
        case (Suc k)
        with j i(2) show ?thesis by (simp add: rootid_call_at_Suc)
      qed
    qed
    with i(1) show ?thesis
      by (intro exI [of _ "Suc i"]) (simp add: rootid_call_at_Suc)
  qed
qed

lemma rootid_match_hello: "rootid_match hello_source = Some (lit ''hello-world-root'')"
  by (simp add: hello_source_def rootid_match_here_def lit_def is_space_def is_quote_def
      LPAREN_def RPAREN_def)

theorem C6_detectRootId_witness:
  "(\<exists>i. rootid_call_at hello_source i (lit ''hello-world-root'')
        \<and> (\<forall>j < i. \<forall>a. \<not> rootid_call_at hello_source j a))
   \<and> detectRootId hello_source (lit ''hello-world'') = lit ''hello-world-root''
   \<and> (\<forall>i a. \<not> rootid_call_at (lit ''render(App)'') i a)
   \<and> detectRootId (lit ''render(App)'') (lit ''counter'') = lit ''counter-root''"
proof -
  from rootid_match_Some [OF rootid_match_hello] obtain i where
    i: "rootid_call_at hello_source i (lit ''hello-world-root'')
        \<and> (\<forall>j < i. \<forall>a. \<not> rootid_call_at hello_source j a)"
    by blast
  have n: "rootid_match (lit ''render(App)'') = None"
    by (simp add: rootid_match_here_def lit_def)
  then have none: "\<forall>i a. \<not> rootid_call_at (lit ''render(App)'') i a"
    by (simp add: rootid_match_None)
  from C6_detectRootId [of hello_source i "lit ''hello-world-root''" "lit ''hello-world''"] i
  have 1: "detectRootId hello_source (lit ''hello-world'') = lit ''hello-world-root''"
    by blast
  from C6_detectRootId [of "lit ''render(App)''" 0 "[]" "lit ''counter''"] none
  have 2: "detectRootId (lit ''render(App)'') (lit ''counter'') = lit ''counter'' @ lit ''-root''"
    by blast
  have 3: "lit ''counter'' @ lit ''-root'' = lit ''counter-root''"
    by (simp add: lit_def)
  from i 1 2 3 none show ?thesis by (metis (no_types))
qed

section \<open>The sample project, evaluated\<close>

lemma exists_src_hello: "existsSync fs_hello (SRC_ROOT web0)"
  by (simp add: existsSync_def fs_hello_def SRC_ROOT_def web0_def path_join_def lit_def)

lemma discover_hello: "discoverEntries fs_hello web0 = Inr [hello_target]"
  by (simp add: discoverEntries_def readdirSync_def fs_hello_def web0_def SRC_ROOT_def
      path_join_def startsWith_def resolveEntryFile_def ENTRY_FILES_def existsSync_def
      readFileSync_def hello_target_def detectRootId_def rootid_match_hello)
     (simp add: lit_def)

lemma prepare_hello:
  "prepareOutput web0 \<lparr>files = fs_hello, events = []\<rparr>
     = (Inr (), \<lparr>files = fs_hello_reset, events = [PrepareOutput]\<rparr>)"
  by (simp add: prepareOutput_def fs_hello_def fs_hello_reset_def web0_def OUT_DIR_def
      path_join_def lit_def AList.delete_eq stale_widgets_def)

lemma selectCss_hello: "selectCss fs_hello_reset web0 hello_target = Inr []"
  apply (simp add: selectCss_def hello_target_def GLOBAL_CSS_CANDIDATES_def web0_def SRC_ROOT_def
      path_join_def path_dirname_def collectCssFiles_def readdirSync_def)
  apply (simp add: fs_hello_reset_def existsSync_def lit_def path_extname_def toLowerCase_def
      lower_char_def DOT_def CSS_EXTENSIONS_def CSS_MODULE_REGEX_test_def collect_loop.simps)
  apply (simp add: filterCssAlreadyImported_def normalizedRelative_def path_relative_def
      startsWith_def array_from_set_def set_add_def path_join_def path_dirname_def
      hello_source_def import_match_here_def lit_def is_space_def is_quote_def SLASH_def)
  done

lemma build_hello_js_only:
  "build ext_js_only () (entryConfig web0 hello_target []) fs_hello_reset = (None, fs_hello_js)"
  by (simp add: ext_js_only_def entryConfig_def web0_def hello_target_def OUT_DIR_def
      path_join_def fs_hello_reset_def fs_hello_js_def lit_def)


lemma hello_built_js: "existsSync fs_hello_built (path_join (OUT_DIR web0) [name hello_target @ lit ''.js''])"
  by (simp add: existsSync_def fs_hello_built_def web0_def hello_target_def
      OUT_DIR_def path_join_def lit_def)

lemma hello_built_css: "existsSync fs_hello_built (path_join (OUT_DIR web0) [name hello_target @ lit ''.css''])"
  by (simp add: existsSync_def fs_hello_built_def web0_def hello_target_def
      OUT_DIR_def path_join_def lit_def)

lemma build_hello_silent:
  "build ext_silent () (entryConfig web0 hello_target []) fs_hello_reset = (None, fs_hello_reset)"
  by (simp add: ext_silent_def)

lemma hello_js_exists: "existsSync fs_hello_js (widgetJsPath web0 hello_target)"
  by (simp add: existsSync_def fs_hello_js_def widgetJsPath_def web0_def hello_target_def
      OUT_DIR_def path_join_def lit_def)

lemma hello_js_no_css:
  "\<not> existsSync fs_hello_js (path_join (OUT_DIR web0) [name hello_target @ lit ''.css''])"
  by (simp add: existsSync_def fs_hello_js_def web0_def hello_target_def
      OUT_DIR_def path_join_def lit_def)

lemma hello_reset_no_js:
  "\<not> existsSync fs_hello_reset (path_join (OUT_DIR web0) [name hello_target @ lit ''.js''])"
  by (simp add: existsSync_def fs_hello_reset_def web0_def hello_target_def
      OUT_DIR_def path_join_def lit_def)

section \<open>Properties of the build run\<close>

lemma relative_segments_prefix: "relative_segments (p @ a) (p @ b) = relative_segments a b"
  by (induction p) auto

lemma widget_relative:
  "path_relative (path_join web [lit ''dist'']) (path_join (OUT_DIR web) [n])
     = lit ''widgets'' @ [SLASH] @ n"
proof -
  have "relative_segments (web @ [lit ''dist''] @ []) (web @ [lit ''dist''] @ [lit ''widgets'', n])
          = relative_segments [] [lit ''widgets'', n]"
    unfolding append_assoc [symmetric] by (rule relative_segments_prefix)
  then show ?thesis
    by (simp add: path_relative_def path_join_def OUT_DIR_def)
qed

lemma build_loop_append:
  "build_loop ext web c (xs @ ys) m w =
     (case build_loop ext web c xs m w of
        (Inl e, w') \<Rightarrow> (Inl e, w')
      | (Inr m', w') \<Rightarrow> build_loop ext web c ys m' w')"
  by (induction xs arbitrary: m w) (auto split: prod.splits sum.splits)

lemma build_target_Inr_js:
  "build_target ext web c t w = (Inr entry, w') \<Longrightarrow> existsSync (files w') (widgetJsPath web t)"
  by (auto simp: build_target_def ensureFileExists_def Let_def
      split: sum.splits prod.splits option.splits if_splits)

lemma build_target_missing_js:
  assumes "selectCss (files w) web t = Inr cs"
    and "build ext c (entryConfig web t cs) (files w) = (None, built)"
    and "\<not> existsSync built (widgetJsPath web t)"
  shows "build_target ext web c t w =
           (Inl (Error (missing_js_message web t)),
            \<lparr>files = built, events = events w @ [Build (entryConfig web t cs) (files w)]\<rparr>)"
  using assms by (simp add: build_target_def ensureFileExists_def)

lemma build_target_ok:
  assumes "selectCss (files w) web t = Inr cs"
    and "build ext c (entryConfig web t cs) (files w) = (None, built)"
    and "existsSync built (widgetJsPath web t)"
  shows "build_target ext web c t w =
           (Inr \<lparr>js = lit ''widgets'' @ [SLASH] @ name t @ lit ''.js'',
                 css = (if existsSync built (widgetCssPath web t)
                        then Some (lit ''widgets'' @ [SLASH] @ name t @ lit ''.css'') else None),
                 rootId = detectedRootId t\<rparr>,
            \<lparr>files = built, events = events w @ [Build (entryConfig web t cs) (files w)]\<rparr>)"
  using assms
  by (simp add: build_target_def ensureFileExists_def widget_relative widgetJsPath_def
      widgetCssPath_def)

text \<open>
  C8. If the source root does not exist, the run fails at once: the error names the
  directory, the exit code is 1, the file system is as it was (no output, no reset of the
  output directory) and nothing was done to the outside (no build).
\<close>

theorem C8_source_root_missing:
  assumes "\<not> existsSync fs (SRC_ROOT web)"
  shows "run ext web fs =
           \<lparr>exitCode = 1,
            caught = Some (Error (lit ''Directory not found: '' @ path_str (SRC_ROOT web))),
            final = \<lparr>files = fs, events = []\<rparr>\<rparr>"
  using assms by (simp add: run_def main_def ensureDirectoryExists_def)

theorem C8_source_root_missing_witness:
  "\<not> existsSync fs_no_src (SRC_ROOT web0)
   \<and> run ext_writing web0 fs_no_src =
       \<lparr>exitCode = 1,
        caught = Some (Error (lit ''Directory not found: /web/src'')),
        final = \<lparr>files = fs_no_src, events = []\<rparr>\<rparr>"
proof -
  have n: "\<not> existsSync fs_no_src (SRC_ROOT web0)"
    by (simp add: existsSync_def fs_no_src_def SRC_ROOT_def web0_def path_join_def lit_def)
  have p: "lit ''Directory not found: '' @ path_str (SRC_ROOT web0)
             = lit ''Directory not found: /web/src''"
    by (simp add: path_str_def SRC_ROOT_def web0_def path_join_def lit_def SLASH_def)
  from C8_source_root_missing [OF n, of ext_writing] n p show ?thesis
    by simp
qed

text \<open>
  C7. A build is followed by the check that \<^verbatim>\<open><name>.js\<close> exists in the output directory:
  the loop body goes on to store a record only if the file exists. If the bundler has
  returned and the file is absent, the loop stops with the error whose message ends with
  the missing path; the last thing done is the build of that target, so no later target is
  built, and the whole run ends with exit code 1.
\<close>

theorem C7_missing_js_aborts:
  assumes "build_loop ext web baseConfig earlier m w = (Inr m', w')"
    and "selectCss (files w') web target = Inr cssToInclude"
    and "build ext baseConfig (entryConfig web target cssToInclude) (files w') = (None, built)"
    and "\<not> existsSync built (path_join (OUT_DIR web) [name target @ lit ''.js''])"
  shows "build_loop ext web baseConfig (earlier @ target # rest) m w =
           (Inl (Error (missing_js_message web target)),
            \<lparr>files = built,
             events = events w' @ [Build (entryConfig web target cssToInclude) (files w')]\<rparr>)
         \<and> (\<exists>pre. missing_js_message web target
                     = pre @ path_str (path_join (OUT_DIR web) [name target @ lit ''.js'']))
         \<and> (existsSync fs (SRC_ROOT web)
              \<and> discoverEntries fs web = Inr (earlier @ target # rest)
              \<and> prepareOutput web \<lparr>files = fs, events = []\<rparr> = (Inr (), w)
              \<and> loadConfigFromFile ext (files w) = Inr baseConfig \<and> m = []
              \<longrightarrow> run ext web fs =
                    \<lparr>exitCode = 1, caught = Some (Error (missing_js_message web target)),
                     final = \<lparr>files = built,
                              events = events w'
                                @ [Build (entryConfig web target cssToInclude) (files w')]\<rparr>\<rparr>)
         \<and> (\<forall>t w1 entry w2. build_target ext web baseConfig t w1 = (Inr entry, w2)
              \<longrightarrow> existsSync (files w2) (path_join (OUT_DIR web) [name t @ lit ''.js'']))"
proof -
  from assms(4) have n: "\<not> existsSync built (widgetJsPath web target)"
    by (simp add: widgetJsPath_def)
  have loop: "build_loop ext web baseConfig (earlier @ target # rest) m w =
           (Inl (Error (missing_js_message web target)),
            \<lparr>files = built,
             events = events w' @ [Build (entryConfig web target cssToInclude) (files w')]\<rparr>)"
    by (simp add: build_loop_append assms(1) build_target_missing_js [OF assms(2,3) n])
  have msg: "\<exists>pre. missing_js_message web target
                     = pre @ path_str (path_join (OUT_DIR web) [name target @ lit ''.js''])"
    unfolding missing_js_message_def widgetJsPath_def
    by (metis append_assoc)
  have whole: "existsSync fs (SRC_ROOT web)
              \<and> discoverEntries fs web = Inr (earlier @ target # rest)
              \<and> prepareOutput web \<lparr>files = fs, events = []\<rparr> = (Inr (), w)
              \<and> loadConfigFromFile ext (files w) = Inr baseConfig \<and> m = []
              \<longrightarrow> run ext web fs =
                    \<lparr>exitCode = 1, caught = Some (Error (missing_js_message web target)),
                     final = \<lparr>files = built,
                              events = events w'
                                @ [Build (entryConfig web target cssToInclude) (files w')]\<rparr>\<rparr>"
    using loop by (auto simp: run_def main_def ensureDirectoryExists_def)
  have chk: "\<forall>t w1 entry w2. build_target ext web baseConfig t w1 = (Inr entry, w2)
              \<longrightarrow> existsSync (files w2) (path_join (OUT_DIR web) [name t @ lit ''.js''])"
    using build_target_Inr_js [of ext web baseConfig] by (simp add: widgetJsPath_def)
  from loop msg whole chk show ?thesis by blast
qed

theorem C7_missing_js_aborts_witness:
  "build_loop ext_silent web0 () [] [] \<lparr>files = fs_hello_reset, events = [PrepareOutput]\<rparr>
     = (Inr [], \<lparr>files = fs_hello_reset, events = [PrepareOutput]\<rparr>)
   \<and> selectCss fs_hello_reset web0 hello_target = Inr []
   \<and> build ext_silent () (entryConfig web0 hello_target []) fs_hello_reset = (None, fs_hello_reset)
   \<and> \<not> existsSync fs_hello_reset (path_join (OUT_DIR web0) [name hello_target @ lit ''.js''])
   \<and> existsSync fs_hello (SRC_ROOT web0)
   \<and> discoverEntries fs_hello web0 = Inr [hello_target]
   \<and> run ext_silent web0 fs_hello =
        \<lparr>exitCode = 1, caught = Some (Error (missing_js_message web0 hello_target)),
         final = \<lparr>files = fs_hello_reset,
                  events = [PrepareOutput, Build (entryConfig web0 hello_target []) fs_hello_reset]\<rparr>\<rparr>
   \<and> missing_js_message web0 hello_target
        = lit ''Expected JavaScript output for '' @ [0x22] @ lit ''hello-world'' @ [0x22]
            @ lit '' not found: /web/dist/widgets/hello-world.js''"
proof -
  let ?w = "\<lparr>files = fs_hello_reset, events = [PrepareOutput]\<rparr>"
  have l: "build_loop ext_silent web0 () [] [] ?w = (Inr [], ?w)" by simp
  have s: "selectCss (files ?w) web0 hello_target = Inr []"
    by (simp add: selectCss_hello)
  have b: "build ext_silent () (entryConfig web0 hello_target []) (files ?w)
             = (None, fs_hello_reset)"
    by (simp add: build_hello_silent)
  have c: "loadConfigFromFile ext_silent (files ?w) = Inr ()"
    by (simp add: ext_silent_def)
  have d: "discoverEntries fs_hello web0 = Inr ([] @ hello_target # [])"
    by (simp add: discover_hello)
  have msg: "missing_js_message web0 hello_target
        = lit ''Expected JavaScript output for '' @ [0x22] @ lit ''hello-world'' @ [0x22]
            @ lit '' not found: /web/dist/widgets/hello-world.js''"
    by (simp add: missing_js_message_def widgetJsPath_def web0_def hello_target_def OUT_DIR_def
        path_join_def path_str_def SLASH_def lit_def)
  from C7_missing_js_aborts [OF l s b hello_reset_no_js, of "[]" fs_hello]
    exists_src_hello d prepare_hello c
  have "run ext_silent web0 fs_hello =
        \<lparr>exitCode = 1, caught = Some (Error (missing_js_message web0 hello_target)),
         final = \<lparr>files = fs_hello_reset,
                  events = events ?w @ [Build (entryConfig web0 hello_target []) (files ?w)]\<rparr>\<rparr>"
    by blast
  with l s b hello_reset_no_js exists_src_hello discover_hello msg show ?thesis
    by simp
qed

section \<open>The output directory and the manifest over a whole run\<close>

lemma lookup_append:
  "lookup (p @ q) n = (case lookup p n of None \<Rightarrow> None | Some c \<Rightarrow> lookup q c)"
  by (induction p arbitrary: n) (auto split: fsnode.splits option.splits)

lemma lookup_rmSync: "p \<noteq> [] \<Longrightarrow> lookup p (rmSync p n) = None"
proof (induction p arbitrary: n)
  case Nil
  then show ?case by simp
next
  case (Cons s p)
  show ?case
  proof (cases n)
    case (File body)
    then show ?thesis by simp
  next
    case (Dir es)
    show ?thesis
    proof (cases "p = []")
      case True
      with Dir show ?thesis by (simp add: delete_conv')
    next
      case False
      with Dir Cons.IH show ?thesis
        by (simp add: map_of_map_entry split: option.splits)
    qed
  qed
qed

lemma mkdirSync_fresh:
  "lookup p n = None \<Longrightarrow> mkdirSync p n = Some n' \<Longrightarrow> lookup p n' = Some (Dir [])"
proof (induction p arbitrary: n n')
  case Nil
  then show ?case by simp
next
  case (Cons s p)
  from Cons.prems(2) obtain es where n: "n = Dir es"
    by (cases n) auto
  show ?case
  proof (cases "map_of es s")
    case None
    with Cons.prems(2) n obtain c where c: "mkdirSync p (Dir []) = Some c" "n' = Dir (es @ [(s, c)])"
      by auto
    have "lookup p c = Some (Dir [])"
    proof (cases p)
      case Nil
      with c(1) show ?thesis by simp
    next
      case (Cons a list)
      then have "lookup p (Dir []) = None" by simp
      from Cons.IH [OF this c(1)] show ?thesis .
    qed
    with None c(2) show ?thesis
      by (simp add: map_add_def)
  next
    case (Some c0)
    with Cons.prems(1) n have l: "lookup p c0 = None" by simp
    from Some Cons.prems(2) n obtain c' where c': "mkdirSync p c0 = Some c'"
      "n' = Dir (AList.update s c' es)"
      by auto
    from Cons.IH [OF l c'(1)] c'(2) show ?thesis
      by (simp add: update_conv')
  qed
qed


lemma build_target_events:
  assumes "build_target ext web c t w = (r, w')"
  shows "events w' = events w \<or> (\<exists>cfg. events w' = events w @ [Build cfg (files w)])"
  using assms
  by (auto simp: build_target_def Let_def split: sum.splits prod.splits option.splits)

lemma build_loop_events:
  "build_loop ext web c ts m w = (r, w') \<Longrightarrow>
     \<exists>bs. events w' = events w @ bs \<and> list_all is_build bs
           \<and> (\<forall>cfg snapshot bs'. bs = Build cfg snapshot # bs' \<longrightarrow> snapshot = files w)"
proof (induction ts arbitrary: m w)
  case Nil
  then show ?case by simp
next
  case (Cons t ts)
  obtain r1 w1 where bt: "build_target ext web c t w = (r1, w1)"
    by (cases "build_target ext web c t w")
  from build_target_events [OF bt]
  consider "events w1 = events w" | cfg where "events w1 = events w @ [Build cfg (files w)]"
    by blast
  then have step: "\<exists>b1. events w1 = events w @ b1 \<and> list_all is_build b1
                     \<and> (b1 = [] \<or> (\<exists>cfg. b1 = [Build cfg (files w)]))"
    by cases auto
  then obtain b1 where b1: "events w1 = events w @ b1" "list_all is_build b1"
    "b1 = [] \<or> (\<exists>cfg. b1 = [Build cfg (files w)])"
    by blast
  show ?case
  proof (cases r1)
    case (Inl e)
    with Cons.prems bt have "w' = w1" by simp
    with b1 show ?thesis by auto
  next
    case (Inr entry)
    with Cons.prems bt
    have "build_loop ext web c ts (manifest_assign m (name t) entry) w1 = (r, w')"
      by simp
    from Cons.IH [OF this] obtain bs where bs: "events w' = events w1 @ bs" "list_all is_build bs"
      by blast
    from Inr bt have "b1 \<noteq> []"
      using b1(1) by (auto simp: build_target_def Let_def
          split: sum.splits prod.splits option.splits)
    with b1(3) obtain cfg where "b1 = [Build cfg (files w)]" by blast
    with b1(1) bs show ?thesis
      by (intro exI [of _ "Build cfg (files w) # bs"]) simp
  qed
qed

lemma main_with_targets:
  assumes "existsSync (files w) (SRC_ROOT web)" and "discoverEntries (files w) web = Inr targets"
    and "targets \<noteq> []"
  shows "main ext web w =
           (case prepareOutput web w of
              (Inl e, w1) \<Rightarrow> (Inl e, w1)
            | (Inr u, w1) \<Rightarrow>
                (case loadConfigFromFile ext (files w1) of
                   Inl e \<Rightarrow> (Inl e, w1)
                 | Inr baseConfig \<Rightarrow>
                     (case build_loop ext web baseConfig targets [] w1 of
                        (Inl e, w2) \<Rightarrow> (Inl e, w2)
                      | (Inr m, w2) \<Rightarrow> write_manifest ext web m w2)))"
  using assms by (simp add: main_def ensureDirectoryExists_def)

lemma write_manifest_cases:
  assumes "write_manifest ext web m w = (r, w')"
  shows "(\<exists>e. r = Inl e \<and> w' = w)
         \<or> (r = Inr () \<and> events w' = events w @ [WriteManifest m]
             \<and> lookup (MANIFEST_PATH web) (files w') = Some (File (JSON_stringify ext m)))"
proof (cases "writeFileSync (MANIFEST_PATH web) (JSON_stringify ext m) (files w)")
  case None
  with assms show ?thesis by (auto simp: write_manifest_def)
next
  case (Some written)
  have "\<And>p d n n'. writeFileSync p d n = Some n' \<Longrightarrow> lookup p n' = Some (File d)"
  proof -
    fix p :: path and d n n'
    show "writeFileSync p d n = Some n' \<Longrightarrow> lookup p n' = Some (File d)"
    proof (induction p arbitrary: n n')
      case Nil
      then show ?case by simp
    next
      case (Cons s p)
      then show ?case
        by (cases n)
          (auto simp: update_conv' split: option.splits if_splits fsnode.splits)
    qed
  qed
  from this [OF Some] Some assms show ?thesis
    by (auto simp: write_manifest_def)
qed


lemma discover_no_widgets: "discoverEntries fs_no_widgets web0 = Inr []"
  by (simp add: discoverEntries_def readdirSync_def fs_no_widgets_def web0_def SRC_ROOT_def
      path_join_def lit_def)

lemma exists_src_no_widgets: "existsSync fs_no_widgets (SRC_ROOT web0)"
  by (simp add: existsSync_def fs_no_widgets_def SRC_ROOT_def web0_def path_join_def lit_def)

lemma run_no_widgets:
  "run ext web0 fs_no_widgets =
     \<lparr>exitCode = 0, caught = None, final = \<lparr>files = fs_no_widgets, events = []\<rparr>\<rparr>"
  using exists_src_no_widgets discover_no_widgets
  by (simp add: run_def main_def ensureDirectoryExists_def)

text \<open>
  C3 (as stated, refuted). On the project without widget directories the run finds zero
  targets and ends with exit code 0 without having reset the output directory: the bundle
  \<^verbatim>\<open>old.js\<close> of the earlier run is still there.
\<close>

theorem C3_zero_targets_counterexample:
  "discoverEntries fs_no_widgets web0 = Inr []
   \<and> exitCode (run ext_writing web0 fs_no_widgets) = 0
   \<and> PrepareOutput \<notin> set (events (final (run ext_writing web0 fs_no_widgets)))
   \<and> files (final (run ext_writing web0 fs_no_widgets)) = fs_no_widgets
   \<and> existsSync (files (final (run ext_writing web0 fs_no_widgets)))
        (path_join (OUT_DIR web0) [lit ''old.js''])"
  by (simp add: run_no_widgets discover_no_widgets)
    (simp add: existsSync_def fs_no_widgets_def OUT_DIR_def web0_def path_join_def
      stale_widgets_def lit_def)

lemma mkdirSync_empty: "\<exists>n'. mkdirSync p (Dir []) = Some n'"
  by (induction p) auto

lemma map_entry_same: "map_of es s = Some c \<Longrightarrow> f c = c \<Longrightarrow> AList.map_entry s f es = es"
  by (induction es) (auto split: if_splits)

lemma reset_fails_iff:
  "p \<noteq> [] \<Longrightarrow>
     mkdirSync p (rmSync p n) = None
       \<longleftrightarrow> (\<exists>q r body. p = q @ r \<and> r \<noteq> [] \<and> lookup q n = Some (File body))"
proof (induction p arbitrary: n)
  case Nil
  then show ?case by simp
next
  case (Cons s p)
  show ?case
  proof (cases n)
    case (File body)
    have "s # p = [] @ (s # p) \<and> s # p \<noteq> [] \<and> lookup [] n = Some (File body)"
      using File by simp
    then have "\<exists>q r body. s # p = q @ r \<and> r \<noteq> [] \<and> lookup q n = Some (File body)"
      by blast
    with File show ?thesis by simp
  next
    case (Dir es)
    have split: "(\<exists>q r body. s # p = q @ r \<and> r \<noteq> [] \<and> lookup q n = Some (File body))
                   \<longleftrightarrow> (\<exists>c q' r body. map_of es s = Some c \<and> p = q' @ r \<and> r \<noteq> []
                                  \<and> lookup q' c = Some (File body))"
    proof
      assume "\<exists>q r body. s # p = q @ r \<and> r \<noteq> [] \<and> lookup q n = Some (File body)"
      then obtain q r body where q: "s # p = q @ r" "r \<noteq> []" "lookup q n = Some (File body)"
        by blast
      from q(3) Dir obtain q' where q': "q = s # q'"
        using q(1) by (cases q) auto
      with q(1) have p: "p = q' @ r" by simp
      from q(3) q' Dir obtain c where "map_of es s = Some c" "lookup q' c = Some (File body)"
        by (auto split: option.splits)
      with p q(2) show "\<exists>c q' r body. map_of es s = Some c \<and> p = q' @ r \<and> r \<noteq> []
                                  \<and> lookup q' c = Some (File body)"
        by blast
    next
      assume "\<exists>c q' r body. map_of es s = Some c \<and> p = q' @ r \<and> r \<noteq> []
                                  \<and> lookup q' c = Some (File body)"
      then obtain c q' r body where c: "map_of es s = Some c" "p = q' @ r" "r \<noteq> []"
        "lookup q' c = Some (File body)"
        by blast
      then have "s # p = (s # q') @ r \<and> r \<noteq> [] \<and> lookup (s # q') n = Some (File body)"
        using Dir by simp
      then show "\<exists>q r body. s # p = q @ r \<and> r \<noteq> [] \<and> lookup q n = Some (File body)"
        by blast
    qed
    show ?thesis
    proof (cases "p = []")
      case True
      have "mkdirSync [s] (Dir (AList.delete s es)) \<noteq> None"
        by (simp add: delete_conv')
      moreover have "\<not> (\<exists>c q' r body. map_of es s = Some c \<and> p = q' @ r \<and> r \<noteq> []
                                  \<and> lookup q' c = Some (File body))"
        using True by simp
      ultimately show ?thesis
        unfolding split using True Dir by simp
    next
      case False
      show ?thesis
      proof (cases "map_of es s")
        case None
        from mkdirSync_empty [of p] obtain n' where "mkdirSync p (Dir []) = Some n'" by blast
        with None Dir False have "mkdirSync (s # p) (rmSync (s # p) n) \<noteq> None"
          by (simp add: map_of_map_entry)
        with None show ?thesis
          unfolding split by simp
      next
        case (Some c)
        have "mkdirSync (s # p) (rmSync (s # p) n) = None
                \<longleftrightarrow> mkdirSync p (rmSync p c) = None"
          using Some Dir False by (simp add: map_of_map_entry)
        also have "\<dots> \<longleftrightarrow> (\<exists>q r body. p = q @ r \<and> r \<noteq> [] \<and> lookup q c = Some (File body))"
          using Cons.IH [OF False] .
        finally show ?thesis
          unfolding split using Some by simp
      qed
    qed
  qed
qed

lemma reset_fails_unchanged:
  "p \<noteq> [] \<Longrightarrow> mkdirSync p (rmSync p n) = None \<Longrightarrow> rmSync p n = n"
proof (induction p arbitrary: n)
  case Nil
  then show ?case by simp
next
  case (Cons s p)
  show ?case
  proof (cases n)
    case (File body)
    then show ?thesis by simp
  next
    case (Dir es)
    show ?thesis
    proof (cases "p = []")
      case True
      with Cons.prems(2) Dir show ?thesis by (simp add: delete_conv')
    next
      case False
      show ?thesis
      proof (cases "map_of es s")
        case None
        from mkdirSync_empty [of p] obtain n' where "mkdirSync p (Dir []) = Some n'" by blast
        with None Dir False Cons.prems(2) show ?thesis
          by (simp add: map_of_map_entry)
      next
        case (Some c)
        with Cons.prems(2) Dir False have "mkdirSync p (rmSync p c) = None"
          by (simp add: map_of_map_entry)
        from Cons.IH [OF False this] have "rmSync p c = c" .
        with Some have "AList.map_entry s (rmSync p) es = es"
          by (rule map_entry_same)
        with Dir False show ?thesis by simp
      qed
    qed
  qed
qed

lemma rmSync_empty: "rmSync p (Dir []) = Dir []"
  by (cases p) auto

lemma reset_frame:
  "p \<noteq> [] \<Longrightarrow> mkdirSync p (rmSync p n) = Some n' \<Longrightarrow> \<not> prefix q p \<Longrightarrow> \<not> prefix p q
     \<Longrightarrow> lookup q n' = lookup q n"
proof (induction p arbitrary: n n' q)
  case Nil
  then show ?case by simp
next
  case (Cons s p)
  from Cons.prems(3) obtain t q' where q: "q = t # q'"
    by (cases q) auto
  from Cons.prems(2) obtain es where n: "n = Dir es"
    by (cases n) auto
  show ?case
  proof (cases "p = []")
    case True
    with Cons.prems(4) q have ts: "t \<noteq> s" by auto
    from True Cons.prems(2) n have "n' = Dir (AList.delete s es @ [(s, Dir [])])"
      by (auto simp: delete_conv')
    with ts q n show ?thesis
      by (auto simp: delete_conv' map_add_def split: option.splits)
  next
    case False
    show ?thesis
    proof (cases "t = s")
      case ts: False
      show ?thesis
      proof (cases "map_of es s")
        case None
        with Cons.prems(2) n False obtain c where "n' = Dir (AList.map_entry s (rmSync p) es @ [(s, c)])"
          by (auto simp: map_of_map_entry)
        with ts q n show ?thesis
          by (auto simp: map_add_def map_of_map_entry split: option.splits)
      next
        case (Some c0)
        with Cons.prems(2) n False obtain c' where
          "n' = Dir (AList.update s c' (AList.map_entry s (rmSync p) es))"
          by (auto simp: map_of_map_entry)
        with ts q n show ?thesis
          by (auto simp: update_conv' map_of_map_entry split: option.splits)
      qed
    next
      case True
      with Cons.prems(3,4) q have d: "\<not> prefix q' p" "\<not> prefix p q'" by auto
      show ?thesis
      proof (cases "map_of es s")
        case None
        with Cons.prems(2) n False obtain c where c: "mkdirSync p (Dir []) = Some c"
          "n' = Dir (AList.map_entry s (rmSync p) es @ [(s, c)])"
          by (auto simp: map_of_map_entry)
        from c(1) have "mkdirSync p (rmSync p (Dir [])) = Some c"
          by (simp add: rmSync_empty)
        from Cons.IH [OF False this d] have "lookup q' c = lookup q' (Dir [])" .
        moreover have "lookup q' (Dir []) = None"
          using d(1) by (cases q') auto
        ultimately show ?thesis
          using None c(2) True q n by (auto simp: map_add_def map_of_map_entry split: option.splits)
      next
        case (Some c0)
        with Cons.prems(2) n False obtain c' where c': "mkdirSync p (rmSync p c0) = Some c'"
          "n' = Dir (AList.update s c' (AList.map_entry s (rmSync p) es))"
          by (auto simp: map_of_map_entry)
        from Cons.IH [OF False c'(1) d] have "lookup q' c' = lookup q' c0" .
        with Some c'(2) True q n show ?thesis
          by (simp add: update_conv')
      qed
    qed
  qed
qed

lemma reset_fails_at_dist:
  assumes "existsSync fs (SRC_ROOT web)"
  shows "mkdirSync (OUT_DIR web) (rmSync (OUT_DIR web) fs) = None
           \<longleftrightarrow> (\<exists>body. lookup (path_join web [lit ''dist'']) fs = Some (File body))"
proof -
  have out: "OUT_DIR web = (web @ [lit ''dist'']) @ [lit ''widgets'']" "OUT_DIR web \<noteq> []"
    by (simp_all add: OUT_DIR_def path_join_def)
  have no_file: "lookup q fs \<noteq> Some (File body)" if "web = q @ q'" for q q' body
  proof
    assume "lookup q fs = Some (File body)"
    then have "lookup (q @ (q' @ [lit ''src''])) fs = lookup (q' @ [lit ''src'']) (File body)"
      by (simp add: lookup_append)
    moreover have "lookup (q' @ [lit ''src'']) (File body) = None"
      by (cases q') simp_all
    ultimately show False
      using assms that by (simp add: existsSync_def SRC_ROOT_def path_join_def)
  qed
  show ?thesis
  proof
    assume "mkdirSync (OUT_DIR web) (rmSync (OUT_DIR web) fs) = None"
    with reset_fails_iff [OF out(2), of fs] obtain q r body where
      q: "OUT_DIR web = q @ r" "r \<noteq> []" "lookup q fs = Some (File body)"
      by blast
    from q(1) have "q @ r = web @ [lit ''dist'', lit ''widgets'']"
      by (simp add: OUT_DIR_def path_join_def)
    then consider us where "q = web @ us" "us @ r = [lit ''dist'', lit ''widgets'']"
      | us where "q @ us = web"
      unfolding append_eq_append_conv2 by blast
    then show "\<exists>body. lookup (path_join web [lit ''dist'']) fs = Some (File body)"
    proof cases
      case 1
      from 1(2) q(2) consider "us = []" | "us = [lit ''dist'']"
        by (cases us; cases "tl us") (auto simp: Cons_eq_append_conv)
      then show ?thesis
      proof cases
        case 1
        with \<open>q = web @ us\<close> q(3) no_file [of q "[]" body] show ?thesis by simp
      next
        case 2
        with \<open>q = web @ us\<close> q(3) show ?thesis by (auto simp: path_join_def)
      qed
    next
      case 2
      with q(3) no_file [of q us body] show ?thesis by simp
    qed
  next
    assume "\<exists>body. lookup (path_join web [lit ''dist'']) fs = Some (File body)"
    then obtain body where "lookup (web @ [lit ''dist'']) fs = Some (File body)"
      by (auto simp: path_join_def)
    with out(1) have "\<exists>q r body. OUT_DIR web = q @ r \<and> r \<noteq> [] \<and> lookup q fs = Some (File body)"
      by blast
    with reset_fails_iff [OF out(2), of fs]
    show "mkdirSync (OUT_DIR web) (rmSync (OUT_DIR web) fs) = None" by blast
  qed
qed

lemma main_reset_fails:
  assumes "existsSync fs (SRC_ROOT web)" and "discoverEntries fs web = Inr targets"
    and "targets \<noteq> []" and "mkdirSync (OUT_DIR web) (rmSync (OUT_DIR web) fs) = None"
  shows "main ext web \<lparr>files = fs, events = []\<rparr>
           = (Inl (FsError (OUT_DIR web)), \<lparr>files = fs, events = [PrepareOutput]\<rparr>)"
proof -
  have "OUT_DIR web \<noteq> []"
    by (simp add: OUT_DIR_def path_join_def)
  from reset_fails_unchanged [OF this assms(4)] have "rmSync (OUT_DIR web) fs = fs" .
  with assms(4) have "prepareOutput web \<lparr>files = fs, events = []\<rparr>
           = (Inl (FsError (OUT_DIR web)), \<lparr>files = fs, events = [PrepareOutput]\<rparr>)"
    by (simp add: prepareOutput_def)
  with main_with_targets [of "\<lparr>files = fs, events = []\<rparr>" web targets ext, simplified,
      OF assms(1-3)]
  show ?thesis by simp
qed

lemma build_target_no_event:
  "build_target ext web c t w = (r, w') \<Longrightarrow> events w' = events w
     \<Longrightarrow> w' = w \<and> (\<exists>e. r = Inl e)"
  by (auto simp: build_target_def Let_def split: sum.splits prod.splits option.splits)

lemma build_loop_no_event:
  assumes "build_loop ext web c (t # ts) m w = (r, w')" and "events w' = events w"
  shows "w' = w \<and> (\<exists>e. r = Inl e)"
proof -
  obtain r1 w1 where bt: "build_target ext web c t w = (r1, w1)"
    by (cases "build_target ext web c t w")
  show ?thesis
  proof (cases r1)
    case (Inl e)
    with assms bt have "w' = w1" "r = Inl e" by simp_all
    with build_target_no_event [OF bt] assms(2) show ?thesis by simp
  next
    case (Inr entry)
    with assms(1) bt
    have l: "build_loop ext web c ts (manifest_assign m (name t) entry) w1 = (r, w')"
      by simp
    from build_loop_events [OF l] obtain bs where "events w' = events w1 @ bs" by blast
    moreover from build_target_events [OF bt] build_target_no_event [OF bt] Inr
    obtain cfg where "events w1 = events w @ [Build cfg (files w)]" by auto
    ultimately have "events w' \<noteq> events w" by simp
    with assms(2) show ?thesis by simp
  qed
qed

lemma main_reset_ok:
  assumes src: "existsSync fs (SRC_ROOT web)" and disc: "discoverEntries fs web = Inr targets"
    and ne: "targets \<noteq> []"
    and created: "mkdirSync (OUT_DIR web) (rmSync (OUT_DIR web) fs) = Some created"
    and m: "main ext web \<lparr>files = fs, events = []\<rparr> = (r, w')"
  shows "\<exists>rest. events w' = PrepareOutput # rest \<and> PrepareOutput \<notin> set rest
           \<and> ((rest = [] \<and> files w' = created) \<or> (\<exists>cfg rest'. rest = Build cfg created # rest'))"
proof -
  let ?w1 = "\<lparr>files = created, events = [PrepareOutput]\<rparr>"
  have p: "prepareOutput web \<lparr>files = fs, events = []\<rparr> = (Inr (), ?w1)"
    using created by (simp add: prepareOutput_def)
  note mt = main_with_targets [of "\<lparr>files = fs, events = []\<rparr>" web targets ext, simplified,
      OF src disc ne]
  show ?thesis
  proof (cases "loadConfigFromFile ext created")
    case (Inl e)
    with m mt p have "w' = ?w1" by simp
    then show ?thesis by simp
  next
    case c: (Inr baseConfig)
    obtain r2 w2 where l: "build_loop ext web baseConfig targets [] ?w1 = (r2, w2)"
      by (cases "build_loop ext web baseConfig targets [] ?w1")
    from build_loop_events [OF l] obtain bs where bs: "events w2 = [PrepareOutput] @ bs"
      "list_all is_build bs"
      "\<forall>cfg snapshot bs'. bs = Build cfg snapshot # bs' \<longrightarrow> snapshot = created"
      by auto
    have nb: "PrepareOutput \<notin> set bs"
      using bs(2) by (auto simp: list_all_iff)
    from ne obtain t ts where ts: "targets = t # ts" by (cases targets) auto
    show ?thesis
    proof (cases bs)
      case Nil
      with bs(1) have "events w2 = events ?w1" by simp
      with build_loop_no_event [OF l [unfolded ts]] obtain e where "w2 = ?w1" "r2 = Inl e"
        by blast
      with m mt p c l have "w' = ?w1" by simp
      then show ?thesis by simp
    next
      case (Cons b bs')
      with bs(2) obtain cfg snapshot where "b = Build cfg snapshot"
        by (cases b) auto
      with Cons bs(3) have first: "bs = Build cfg created # bs'" by simp
      show ?thesis
      proof (cases r2)
        case (Inl e)
        with m mt p c l have "w' = w2" by simp
        with bs(1) nb first show ?thesis by simp
      next
        case (Inr mf)
        with m mt p c l have "write_manifest ext web mf w2 = (r, w')" by simp
        from write_manifest_cases [OF this]
        consider "w' = w2" | "events w' = events w2 @ [WriteManifest mf]" by blast
        then show ?thesis
        proof cases
          case 1
          with bs(1) nb first show ?thesis by simp
        next
          case 2
          with bs(1) nb first show ?thesis by simp
        qed
      qed
    qed
  qed
qed

text \<open>
  C3 (amended). Take a run whose source root exists. If discovery finds at least one target,
  the reset of the output directory is the first thing the run does, before the configuration
  is loaded and before any build, and it is done once. The reset throws exactly when a
  regular file stands at \<^verbatim>\<open>dist\<close>, where the directory that holds the output directory should
  be: then the run ends with exit code 1, the file system as it was and no build. Otherwise
  the reset succeeds: the output directory has been removed and created again, it is an empty
  directory, every path that neither leads to it nor lies in it is as before, and this file
  system is the one the first build is started on, and the final one when the run stops before
  any build (the configuration loader is taken not to write). If discovery finds zero targets,
  the run changes nothing: the output directory is not reset.
\<close>

theorem C3_reset_before_first_build:
  assumes "existsSync fs (SRC_ROOT web)" and "discoverEntries fs web = Inr targets"
  shows "(targets \<noteq> [] \<and> (\<exists>body. lookup (path_join web [lit ''dist'']) fs = Some (File body))
           \<longrightarrow> run ext web fs =
                 \<lparr>exitCode = 1, caught = Some (FsError (OUT_DIR web)),
                  final = \<lparr>files = fs, events = [PrepareOutput]\<rparr>\<rparr>)
         \<and> (targets \<noteq> [] \<and> \<not> (\<exists>body. lookup (path_join web [lit ''dist'']) fs = Some (File body))
           \<longrightarrow> (\<exists>created rest.
                  mkdirSync (OUT_DIR web) (rmSync (OUT_DIR web) fs) = Some created
                  \<and> lookup (OUT_DIR web) created = Some (Dir [])
                  \<and> (\<forall>q. \<not> prefix q (OUT_DIR web) \<and> \<not> prefix (OUT_DIR web) q
                         \<longrightarrow> lookup q created = lookup q fs)
                  \<and> events (final (run ext web fs)) = PrepareOutput # rest
                  \<and> PrepareOutput \<notin> set rest
                  \<and> ((rest = [] \<and> files (final (run ext web fs)) = created)
                       \<or> (\<exists>cfg rest'. rest = Build cfg created # rest'))))
         \<and> (targets = [] \<longrightarrow>
              run ext web fs =
                \<lparr>exitCode = 0, caught = None, final = \<lparr>files = fs, events = []\<rparr>\<rparr>)"
proof (intro conjI impI)
  assume a: "targets \<noteq> [] \<and> (\<exists>body. lookup (path_join web [lit ''dist'']) fs = Some (File body))"
  with reset_fails_at_dist [OF assms(1)]
  have "mkdirSync (OUT_DIR web) (rmSync (OUT_DIR web) fs) = None" by blast
  from main_reset_fails [OF assms _ this, of ext] a
  show "run ext web fs =
                 \<lparr>exitCode = 1, caught = Some (FsError (OUT_DIR web)),
                  final = \<lparr>files = fs, events = [PrepareOutput]\<rparr>\<rparr>"
    by (simp add: run_def)
next
  assume a: "targets \<noteq> [] \<and> \<not> (\<exists>body. lookup (path_join web [lit ''dist'']) fs = Some (File body))"
  with reset_fails_at_dist [OF assms(1)]
  obtain created where created: "mkdirSync (OUT_DIR web) (rmSync (OUT_DIR web) fs) = Some created"
    by (cases "mkdirSync (OUT_DIR web) (rmSync (OUT_DIR web) fs)") auto
  have out: "OUT_DIR web \<noteq> []"
    by (simp add: OUT_DIR_def path_join_def)
  have empty: "lookup (OUT_DIR web) created = Some (Dir [])"
    using mkdirSync_fresh [OF lookup_rmSync [OF out] created] .
  have frame: "\<forall>q. \<not> prefix q (OUT_DIR web) \<and> \<not> prefix (OUT_DIR web) q
                 \<longrightarrow> lookup q created = lookup q fs"
    using reset_frame [OF out created] by blast
  obtain r w' where m: "main ext web \<lparr>files = fs, events = []\<rparr> = (r, w')"
    by (cases "main ext web \<lparr>files = fs, events = []\<rparr>")
  then have fin: "final (run ext web fs) = w'"
    by (cases r) (simp_all add: run_def)
  from a have ne: "targets \<noteq> []" by simp
  from main_reset_ok [OF assms ne created m] fin created empty frame
  show "\<exists>created rest.
                  mkdirSync (OUT_DIR web) (rmSync (OUT_DIR web) fs) = Some created
                  \<and> lookup (OUT_DIR web) created = Some (Dir [])
                  \<and> (\<forall>q. \<not> prefix q (OUT_DIR web) \<and> \<not> prefix (OUT_DIR web) q
                         \<longrightarrow> lookup q created = lookup q fs)
                  \<and> events (final (run ext web fs)) = PrepareOutput # rest
                  \<and> PrepareOutput \<notin> set rest
                  \<and> ((rest = [] \<and> files (final (run ext web fs)) = created)
                       \<or> (\<exists>cfg rest'. rest = Build cfg created # rest'))"
    by auto
next
  assume "targets = []"
  with assms show "run ext web fs =
                \<lparr>exitCode = 0, caught = None, final = \<lparr>files = fs, events = []\<rparr>\<rparr>"
    by (simp add: run_def main_def ensureDirectoryExists_def)
qed

lemma load_silent: "loadConfigFromFile ext_silent f = Inr ()"
  by (simp add: ext_silent_def)


lemma load_writing: "loadConfigFromFile ext_writing f = Inr ()"
  by (simp add: ext_writing_def)


lemma run_hello_silent:
  "run ext_silent web0 fs_hello =
     \<lparr>exitCode = 1, caught = Some (Error (missing_js_message web0 hello_target)),
      final = \<lparr>files = fs_hello_reset,
               events = [PrepareOutput, Build (entryConfig web0 hello_target []) fs_hello_reset]\<rparr>\<rparr>"
  using hello_reset_no_js
  by (simp add: run_def main_def ensureDirectoryExists_def exists_src_hello discover_hello
      prepare_hello load_silent build_target_def selectCss_hello build_hello_silent
      ensureFileExists_def widgetJsPath_def)



lemma reset_hello:
  "mkdirSync (OUT_DIR web0) (rmSync (OUT_DIR web0) fs_hello) = Some fs_hello_reset"
  by (simp add: fs_hello_def fs_hello_reset_def web0_def OUT_DIR_def
      path_join_def lit_def AList.delete_eq stale_widgets_def)

lemma hello_dist_dir:
  "\<not> (\<exists>body. lookup (path_join web0 [lit ''dist'']) fs_hello = Some (File body))"
  by (simp add: fs_hello_def web0_def path_join_def lit_def)

lemma exists_src_dist_file: "existsSync fs_dist_file (SRC_ROOT web0)"
  by (simp add: existsSync_def fs_dist_file_def SRC_ROOT_def web0_def path_join_def lit_def)

lemma discover_dist_file: "discoverEntries fs_dist_file web0 = Inr [hello_target]"
  by (simp add: discoverEntries_def readdirSync_def fs_dist_file_def web0_def SRC_ROOT_def
      path_join_def startsWith_def resolveEntryFile_def ENTRY_FILES_def existsSync_def
      readFileSync_def hello_target_def detectRootId_def rootid_match_hello)
     (simp add: lit_def)

lemma dist_file_is_file:
  "\<exists>body. lookup (path_join web0 [lit ''dist'']) fs_dist_file = Some (File body)"
  by (simp add: fs_dist_file_def web0_def path_join_def lit_def)

lemma run_hello_no_config:
  "run ext_no_config web0 fs_hello =
     \<lparr>exitCode = 1, caught = Some (External (lit ''bad config'')),
      final = \<lparr>files = fs_hello_reset, events = [PrepareOutput]\<rparr>\<rparr>"
  by (simp add: run_def main_def ensureDirectoryExists_def exists_src_hello discover_hello
      prepare_hello ext_no_config_def)

theorem C3_reset_before_first_build_witness:
  "existsSync fs_hello (SRC_ROOT web0)
   \<and> discoverEntries fs_hello web0 = Inr [hello_target]
   \<and> mkdirSync (OUT_DIR web0) (rmSync (OUT_DIR web0) fs_hello) = Some fs_hello_reset
   \<and> lookup (OUT_DIR web0) fs_hello_reset = Some (Dir [])
   \<and> lookup (SRC_ROOT web0) fs_hello_reset = lookup (SRC_ROOT web0) fs_hello
   \<and> events (final (run ext_silent web0 fs_hello))
        = [PrepareOutput, Build (entryConfig web0 hello_target []) fs_hello_reset]
   \<and> events (final (run ext_no_config web0 fs_hello)) = [PrepareOutput]
   \<and> files (final (run ext_no_config web0 fs_hello)) = fs_hello_reset
   \<and> existsSync fs_dist_file (SRC_ROOT web0)
   \<and> discoverEntries fs_dist_file web0 = Inr [hello_target]
   \<and> run ext_silent web0 fs_dist_file =
        \<lparr>exitCode = 1, caught = Some (FsError (OUT_DIR web0)),
         final = \<lparr>files = fs_dist_file, events = [PrepareOutput]\<rparr>\<rparr>
   \<and> existsSync fs_no_widgets (SRC_ROOT web0)
   \<and> discoverEntries fs_no_widgets web0 = Inr []
   \<and> run ext_silent web0 fs_no_widgets =
        \<lparr>exitCode = 0, caught = None, final = \<lparr>files = fs_no_widgets, events = []\<rparr>\<rparr>"
proof -
  have ne: "[hello_target] \<noteq> []" by simp
  have div: "\<not> prefix (SRC_ROOT web0) (OUT_DIR web0) \<and> \<not> prefix (OUT_DIR web0) (SRC_ROOT web0)"
    by (simp add: SRC_ROOT_def OUT_DIR_def web0_def path_join_def lit_def)
  from C3_reset_before_first_build [OF exists_src_hello discover_hello, of ext_silent]
    ne hello_dist_dir
  obtain created rest where
    c: "mkdirSync (OUT_DIR web0) (rmSync (OUT_DIR web0) fs_hello) = Some created"
    "lookup (OUT_DIR web0) created = Some (Dir [])"
    "\<forall>q. \<not> prefix q (OUT_DIR web0) \<and> \<not> prefix (OUT_DIR web0) q
        \<longrightarrow> lookup q created = lookup q fs_hello"
    by blast
  from c(1) reset_hello have cr: "created = fs_hello_reset" by simp
  from c(3) div have fr: "lookup (SRC_ROOT web0) created = lookup (SRC_ROOT web0) fs_hello"
    by blast
  from C3_reset_before_first_build [OF exists_src_dist_file discover_dist_file, of ext_silent]
    ne dist_file_is_file
  have d: "run ext_silent web0 fs_dist_file =
        \<lparr>exitCode = 1, caught = Some (FsError (OUT_DIR web0)),
         final = \<lparr>files = fs_dist_file, events = [PrepareOutput]\<rparr>\<rparr>"
    by blast
  from C3_reset_before_first_build [OF exists_src_no_widgets discover_no_widgets, of ext_silent]
  have z: "run ext_silent web0 fs_no_widgets =
        \<lparr>exitCode = 0, caught = None, final = \<lparr>files = fs_no_widgets, events = []\<rparr>\<rparr>"
    by simp
  from c(1,2) cr fr d z exists_src_hello discover_hello exists_src_dist_file discover_dist_file
    exists_src_no_widgets discover_no_widgets
  show ?thesis
    by (simp add: run_hello_silent run_hello_no_config)
qed

section \<open>The manifest\<close>

lemma build_target_Inr:
  assumes "build_target ext web c t w = (Inr entry, w1)"
  shows "\<exists>cs. events w1 = events w @ [Build (entryConfig web t cs) (files w)]
           \<and> build ext c (entryConfig web t cs) (files w) = (None, files w1)
           \<and> existsSync (files w1) (widgetJsPath web t)"
  using assms
  by (auto simp: build_target_def ensureFileExists_def Let_def
      split: sum.splits prod.splits option.splits if_splits)








section \<open>Properties of the stylesheet scan\<close>

lemma descends_snoc:
  "descends dirs listing es \<Longrightarrow> (d, Dir sub) \<in> set es \<Longrightarrow> descends (dirs @ [d]) listing sub"
proof (induction dirs arbitrary: listing)
  case Nil
  then show ?case by (force simp: list_ex_iff)
next
  case (Cons a dirs)
  from Cons.prems(1) obtain e where e: "e \<in> set listing" "fst e = a"
    and c: "case snd e of Dir s \<Rightarrow> descends dirs s es | File body \<Rightarrow> False"
    by (auto simp: list_ex_iff)
  from c obtain s where s: "snd e = Dir s" "descends dirs s es"
    by (cases "snd e") auto
  from Cons.IH [OF s(2) Cons.prems(2)] have "descends (dirs @ [d]) s sub" .
  with e s(1) show ?case
    by (auto simp: list_ex_iff intro!: bexI [of _ e])
qed

lemma scan_dirents_inv:
  assumes cur: "current = startDir @ dirs" "allowed_dirs dirs" "descends dirs listing all_es"
  shows "set es \<subseteq> set all_es \<Longrightarrow>
         (\<forall>q \<in> set queue. \<exists>ds. fst q = startDir @ ds \<and> allowed_dirs ds \<and> descends ds listing (snd q)) \<Longrightarrow>
         (\<forall>p \<in> set results. collectable startDir listing p) \<Longrightarrow>
         (\<forall>q \<in> set (fst (scan_dirents current es queue results)).
             \<exists>ds. fst q = startDir @ ds \<and> allowed_dirs ds \<and> descends ds listing (snd q))
         \<and> (\<forall>p \<in> set (snd (scan_dirents current es queue results)). collectable startDir listing p)"
proof (induction es arbitrary: queue results)
  case Nil
  then show ?case by simp
next
  case (Cons e rest)
  obtain dname node where e: "e = (dname, node)" by (cases e)
  have sub: "set rest \<subseteq> set all_es" using Cons.prems(1) by simp
  have mem: "(dname, node) \<in> set all_es" using Cons.prems(1) e by simp
  show ?case
  proof (cases node)
    case (File body)
    show ?thesis
    proof (cases "toLowerCase (path_extname dname) \<in> CSS_EXTENSIONS \<and> \<not> CSS_MODULE_REGEX_test dname")
      case True
      have "path_join current [dname] = startDir @ dirs @ [dname] \<and> allowed_dirs dirs
              \<and> descends dirs listing all_es \<and> (dname, File body) \<in> set all_es
              \<and> toLowerCase (path_extname dname) \<in> CSS_EXTENSIONS
              \<and> \<not> CSS_MODULE_REGEX_test dname"
        using cur mem True File by (simp add: path_join_def)
      then have "collectable startDir listing (path_join current [dname])"
        unfolding collectable_def by blast
      with Cons.prems(3)
      have r: "\<forall>p \<in> set (results @ [path_join current [dname]]). collectable startDir listing p"
        by simp
      from True Cons.IH [OF sub Cons.prems(2) r] e File show ?thesis
        by (simp add: Let_def)
    next
      case False
      with Cons.IH [OF sub Cons.prems(2,3)] e File show ?thesis
        by (auto simp: Let_def)
    qed
  next
    case (Dir sub_es)
    show ?thesis
    proof (cases "dname = lit ''node_modules'' \<or> startsWith dname (lit ''.'')")
      case True
      with Cons.IH [OF sub Cons.prems(2,3)] e Dir show ?thesis by simp
    next
      case False
      have "allowed_dirs (dirs @ [dname])"
        using cur(2) False by (simp add: allowed_dirs_def)
      moreover have "descends (dirs @ [dname]) listing sub_es"
        using descends_snoc [OF cur(3)] mem Dir by simp
      ultimately have q: "\<forall>q \<in> set (queue @ [(path_join current [dname], sub_es)]).
         \<exists>ds. fst q = startDir @ ds \<and> allowed_dirs ds \<and> descends ds listing (snd q)"
        using Cons.prems(2) cur(1)
        by (auto simp: path_join_def intro!: exI [of _ "dirs @ [dname]"])
      from False Cons.IH [OF sub q Cons.prems(3)] e Dir show ?thesis by simp
    qed
  qed
qed

lemma collect_loop_inv:
  "(\<forall>q \<in> set queue. \<exists>ds. fst q = startDir @ ds \<and> allowed_dirs ds \<and> descends ds listing (snd q)) \<Longrightarrow>
   (\<forall>p \<in> set results. collectable startDir listing p) \<Longrightarrow>
   (\<forall>p \<in> set (collect_loop queue results). collectable startDir listing p)"
proof (induction queue results rule: collect_loop.induct)
  case (1 queue results)
  show ?case
  proof (cases "queue = []")
    case True
    with "1.prems"(2) show ?thesis by (simp add: collect_loop.simps)
  next
    case False
    obtain q' r' where sc:
      "(q', r') = scan_dirents (fst (last queue)) (snd (last queue)) (butlast queue) results"
      by (metis surj_pair)
    from False have "last queue \<in> set queue" by simp
    with "1.prems"(1) obtain ds where ds: "fst (last queue) = startDir @ ds" "allowed_dirs ds"
      "descends ds listing (snd (last queue))"
      by blast
    have bl: "\<forall>q \<in> set (butlast queue).
        \<exists>ds. fst q = startDir @ ds \<and> allowed_dirs ds \<and> descends ds listing (snd q)"
      using "1.prems"(1) by (auto dest: in_set_butlastD)
    from scan_dirents_inv [OF ds, of "snd (last queue)" "butlast queue" results, OF subset_refl bl "1.prems"(2)]
      sc [symmetric]
    have inv: "\<forall>q \<in> set q'. \<exists>ds. fst q = startDir @ ds \<and> allowed_dirs ds \<and> descends ds listing (snd q)"
      "\<forall>p \<in> set r'. collectable startDir listing p"
      by simp_all
    from "1.IH" [OF False sc inv] have "\<forall>p \<in> set (collect_loop q' r'). collectable startDir listing p" .
    moreover have "collect_loop queue results = collect_loop q' r'"
      using False sc [symmetric] by (subst collect_loop.simps) simp
    ultimately show ?thesis by simp
  qed
qed

lemma collectCssFiles_collectable:
  assumes "collectCssFiles fs startDir = Inr results" and "p \<in> set results"
  shows "\<exists>listing. readdirSync fs startDir = Inr listing \<and> collectable startDir listing p"
proof -
  from assms(1) obtain listing where listing: "readdirSync fs startDir = Inr listing"
    "results = collect_loop [(startDir, listing)] []"
    by (auto simp: collectCssFiles_def split: sum.splits)
  have "\<forall>q \<in> set [(startDir, listing)].
          \<exists>ds. fst q = startDir @ ds \<and> allowed_dirs ds \<and> descends ds listing (snd q)"
    by (auto simp: allowed_dirs_def intro!: exI [of _ "[]"])
  from collect_loop_inv [OF this, of "[]"] listing(2) assms(2) have "collectable startDir listing p"
    by simp
  with listing(1) show ?thesis by blast
qed

lemma path_extname_suffix:
  assumes "path_extname n \<noteq> []"
  shows "\<exists>stem. n = stem @ path_extname n \<and> stem \<noteq> []"
proof -
  let ?P = "\<lambda>c. c \<noteq> DOT"
  let ?ext = "DOT # rev (takeWhile ?P (rev n))"
  from assms have dot: "DOT \<in> set n"
    by (auto simp: path_extname_def split: if_splits)
  then have "dropWhile ?P (rev n) \<noteq> []"
    by (simp add: dropWhile_eq_Nil_conv) 
  then obtain x rest where dw: "dropWhile ?P (rev n) = x # rest"
    by (cases "dropWhile ?P (rev n)") auto
  with hd_dropWhile [of ?P "rev n"] have "x = DOT" by auto
  with dw takeWhile_dropWhile_id [of ?P "rev n"]
  have "rev n = takeWhile ?P (rev n) @ DOT # rest" by simp
  then have "rev (rev n) = rev (takeWhile ?P (rev n) @ DOT # rest)" by simp
  then have n: "n = rev rest @ ?ext" by simp
  then have "take (length n - length ?ext) n = rev rest"
    by (metis add_diff_cancel_right' append_eq_conv_conj length_append)
  with assms dot have "path_extname n = ?ext" "rev rest \<noteq> []"
    by (auto simp: path_extname_def Let_def split: if_splits)
  with n show ?thesis by metis
qed

lemma occurs_in_iff: "occurs_in pat s \<longleftrightarrow> (\<exists>pre post. s = pre @ pat @ post)"
proof (induction s)
  case Nil
  then show ?case by auto
next
  case (Cons c cs)
  have "(\<exists>pre post. c # cs = pre @ pat @ post)
          \<longleftrightarrow> (\<exists>post. c # cs = pat @ post) \<or> (\<exists>pre post. cs = pre @ pat @ post)"
  proof
    assume "\<exists>pre post. c # cs = pre @ pat @ post"
    then obtain pre post where e: "c # cs = pre @ pat @ post" by blast
    show "(\<exists>post. c # cs = pat @ post) \<or> (\<exists>pre post. cs = pre @ pat @ post)"
    proof (cases pre)
      case Nil
      with e show ?thesis by auto
    next
      case (Cons a pre')
      with e have "cs = pre' @ pat @ post" by simp
      then show ?thesis by blast
    qed
  next
    assume "(\<exists>post. c # cs = pat @ post) \<or> (\<exists>pre post. cs = pre @ pat @ post)"
    then show "\<exists>pre post. c # cs = pre @ pat @ post"
    proof
      assume "\<exists>post. c # cs = pat @ post"
      then show ?thesis by (metis append_Nil)
    next
      assume "\<exists>pre post. cs = pre @ pat @ post"
      then obtain pre post where "cs = pre @ pat @ post" by blast
      then have "c # cs = (c # pre) @ pat @ post" by simp
      then show ?thesis by blast
    qed
  qed
  moreover have "strip_prefix pat (c # cs) \<noteq> None \<longleftrightarrow> (\<exists>post. c # cs = pat @ post)"
    by (simp add: strip_prefix_None)
  moreover have "occurs_in pat (c # cs) \<longleftrightarrow> strip_prefix pat (c # cs) \<noteq> None \<or> occurs_in pat cs"
    by simp
  ultimately show ?case
    using Cons.IH by blast
qed

lemma CSS_MODULE_REGEX_test_iff:
  "CSS_MODULE_REGEX_test n
     \<longleftrightarrow> (\<exists>pre mid post. n = pre @ mid @ post \<and> toLowerCase mid = lit ''.module.'')"
proof
  assume "CSS_MODULE_REGEX_test n"
  then obtain pre' post' where "map lower_char n = pre' @ lit ''.module.'' @ post'"
    by (auto simp: CSS_MODULE_REGEX_test_def occurs_in_iff toLowerCase_def)
  then obtain pre rest where 1: "n = pre @ rest" "lit ''.module.'' @ post' = map lower_char rest"
    unfolding map_eq_append_conv by blast
  from 1(2) [symmetric] obtain mid post where 2: "rest = mid @ post"
    "lit ''.module.'' = map lower_char mid"
    unfolding map_eq_append_conv by blast
  with 1 show "\<exists>pre mid post. n = pre @ mid @ post \<and> toLowerCase mid = lit ''.module.''"
    by (auto simp: toLowerCase_def)
next
  assume "\<exists>pre mid post. n = pre @ mid @ post \<and> toLowerCase mid = lit ''.module.''"
  then obtain pre mid post where "n = pre @ mid @ post" "toLowerCase mid = lit ''.module.''"
    by blast
  then have "toLowerCase n = toLowerCase pre @ lit ''.module.'' @ toLowerCase post"
    by (simp add: toLowerCase_def)
  then show "CSS_MODULE_REGEX_test n"
    unfolding CSS_MODULE_REGEX_test_def occurs_in_iff by blast
qed

text \<open>
  C10. Every path that \<^verbatim>\<open>collectCssFiles\<close> returns is a file (not a directory) found by
  going down from the start directory through directories none of which is named
  \<^verbatim>\<open>node_modules\<close> or has a name that starts with a dot; the name of the file ends, after a
  non-empty stem, with an extension that in lower case is one of \<^verbatim>\<open>.css\<close>, \<^verbatim>\<open>.pcss\<close>,
  \<^verbatim>\<open>.scss\<close>, \<^verbatim>\<open>.sass\<close>; and the name does not contain \<^verbatim>\<open>.module.\<close> in any letter case.
\<close>

theorem C10_collectCssFiles_only_stylesheets:
  assumes "collectCssFiles fs startDir = Inr results" and "p \<in> set results"
  shows "\<exists>listing dirs fname body es.
           readdirSync fs startDir = Inr listing
           \<and> p = startDir @ dirs @ [fname]
           \<and> list_all (\<lambda>d. d \<noteq> lit ''node_modules'' \<and> \<not> startsWith d (lit ''.'')) dirs
           \<and> descends dirs listing es \<and> (fname, File body) \<in> set es
           \<and> toLowerCase (path_extname fname)
                \<in> {lit ''.css'', lit ''.pcss'', lit ''.scss'', lit ''.sass''}
           \<and> (\<exists>stem ext. fname = stem @ ext \<and> stem \<noteq> []
                 \<and> toLowerCase ext \<in> {lit ''.css'', lit ''.pcss'', lit ''.scss'', lit ''.sass''})
           \<and> \<not> (\<exists>pre mid post. fname = pre @ mid @ post \<and> toLowerCase mid = lit ''.module.'')"
proof -
  from collectCssFiles_collectable [OF assms] obtain listing dirs fname body es where
    c: "readdirSync fs startDir = Inr listing" "p = startDir @ dirs @ [fname]" "allowed_dirs dirs"
    "descends dirs listing es" "(fname, File body) \<in> set es"
    "toLowerCase (path_extname fname) \<in> CSS_EXTENSIONS" "\<not> CSS_MODULE_REGEX_test fname"
    unfolding collectable_def by blast
  from c(6) have "path_extname fname \<noteq> []"
    by (auto simp: CSS_EXTENSIONS_def toLowerCase_def lit_def)
  from path_extname_suffix [OF this] c(6)
  have "\<exists>stem ext. fname = stem @ ext \<and> stem \<noteq> [] \<and> toLowerCase ext \<in> CSS_EXTENSIONS"
    by blast
  with c show ?thesis
    unfolding CSS_MODULE_REGEX_test_iff allowed_dirs_def CSS_EXTENSIONS_def by blast
qed

lemma collect_styles:
  "collectCssFiles fs_styles [lit ''web'', lit ''src'', lit ''w'']
     = Inr [[lit ''web'', lit ''src'', lit ''w'', lit ''a.css''],
            [lit ''web'', lit ''src'', lit ''w'', lit ''B.SCSS''],
            [lit ''web'', lit ''src'', lit ''w'', lit ''sub'', lit ''d.sass'']]"
  by code_simp

theorem C10_collectCssFiles_only_stylesheets_witness:
  "collectCssFiles fs_styles [lit ''web'', lit ''src'', lit ''w'']
     = Inr [[lit ''web'', lit ''src'', lit ''w'', lit ''a.css''],
            [lit ''web'', lit ''src'', lit ''w'', lit ''B.SCSS''],
            [lit ''web'', lit ''src'', lit ''w'', lit ''sub'', lit ''d.sass'']]
   \<and> (\<exists>listing dirs fname body es.
         readdirSync fs_styles [lit ''web'', lit ''src'', lit ''w''] = Inr listing
         \<and> [lit ''web'', lit ''src'', lit ''w'', lit ''sub'', lit ''d.sass'']
              = [lit ''web'', lit ''src'', lit ''w''] @ dirs @ [fname]
         \<and> list_all (\<lambda>d. d \<noteq> lit ''node_modules'' \<and> \<not> startsWith d (lit ''.'')) dirs
         \<and> descends dirs listing es \<and> (fname, File body) \<in> set es
         \<and> (\<exists>stem ext. fname = stem @ ext \<and> stem \<noteq> []
               \<and> toLowerCase ext \<in> {lit ''.css'', lit ''.pcss'', lit ''.scss'', lit ''.sass''})
         \<and> \<not> (\<exists>pre mid post. fname = pre @ mid @ post \<and> toLowerCase mid = lit ''.module.''))"
proof -
  have m: "[lit ''web'', lit ''src'', lit ''w'', lit ''sub'', lit ''d.sass'']
             \<in> set [[lit ''web'', lit ''src'', lit ''w'', lit ''a.css''],
                    [lit ''web'', lit ''src'', lit ''w'', lit ''B.SCSS''],
                    [lit ''web'', lit ''src'', lit ''w'', lit ''sub'', lit ''d.sass'']]"
    by simp
  from C10_collectCssFiles_only_stylesheets [OF collect_styles m] collect_styles
  show ?thesis by blast
qed

section \<open>Properties of the stylesheet selection\<close>

lemma foldl_set_add:
  "\<exists>r. foldl set_add acc xs = acc @ r \<and> subseq r xs \<and> set r = set xs - set acc
       \<and> (distinct acc \<longrightarrow> distinct (acc @ r))"
proof (induction xs arbitrary: acc)
  case Nil
  then show ?case by simp
next
  case (Cons x xs)
  show ?case
  proof (cases "x \<in> set acc")
    case True
    then have sa: "set_add acc x = acc" by (simp add: set_add_def)
    from Cons.IH [of acc] obtain r where r: "foldl set_add acc xs = acc @ r" "subseq r xs"
      "set r = set xs - set acc" "distinct acc \<longrightarrow> distinct (acc @ r)"
      by blast
    have 1: "foldl set_add acc (x # xs) = acc @ r"
      using r(1) sa by simp
    have 2: "subseq r (x # xs)"
      using r(2) by (rule list_emb_Cons)
    have 3: "set r = set (x # xs) - set acc"
      using r(3) True by auto
    from 1 2 3 r(4) show ?thesis by blast
  next
    case False
    then have sa: "set_add acc x = acc @ [x]" by (simp add: set_add_def)
    from Cons.IH [of "acc @ [x]"] obtain r where r: "foldl set_add (acc @ [x]) xs = (acc @ [x]) @ r"
      "subseq r xs" "set r = set xs - set (acc @ [x])"
      "distinct (acc @ [x]) \<longrightarrow> distinct ((acc @ [x]) @ r)"
      by blast
    have 1: "foldl set_add acc (x # xs) = acc @ (x # r)"
      using r(1) sa by simp
    have 2: "subseq (x # r) (x # xs)"
      using r(2) by simp
    have 3: "set (x # r) = set (x # xs) - set acc"
      using r(3) False by auto
    have 4: "distinct acc \<longrightarrow> distinct (acc @ (x # r))"
      using r(4) False by simp
    from 1 2 3 4 show ?thesis by blast
  qed
qed

lemma foldl_set_add_distinct:
  "distinct xs \<Longrightarrow> foldl set_add acc xs = acc @ filter (\<lambda>x. x \<notin> set acc) xs"
proof (induction xs arbitrary: acc)
  case Nil
  then show ?case by simp
next
  case (Cons x xs)
  then have IH: "\<And>acc. foldl set_add acc xs = acc @ filter (\<lambda>x. x \<notin> set acc) xs"
    by simp
  from Cons.prems have nx: "x \<notin> set xs" by simp
  show ?case
  proof (cases "x \<in> set acc")
    case True
    then have "set_add acc x = acc" by (simp add: set_add_def)
    with True show ?thesis by (simp add: IH)
  next
    case False
    then have a: "set_add acc x = acc @ [x]" by (simp add: set_add_def)
    have "filter (\<lambda>y. y \<notin> set (acc @ [x])) xs = filter (\<lambda>y. y \<notin> set acc) xs"
      using nx by (intro filter_cong) auto
    with False a show ?thesis by (simp add: IH)
  qed
qed

lemma array_from_set_append:
  assumes "distinct g"
  shows "\<exists>r. array_from_set (g @ s) = g @ r \<and> subseq r s \<and> set r \<inter> set g = {}
           \<and> distinct (g @ r)"
proof -
  have "foldl set_add [] g = g"
    using foldl_set_add_distinct [OF assms, of "[]"] by simp
  then have "array_from_set (g @ s) = foldl set_add g s"
    by (simp add: array_from_set_def)
  with foldl_set_add [of g s] assms show ?thesis by auto
qed

lemma globalCss_distinct:
  "distinct (filter (existsSync fs) (map (path_join root) GLOBAL_CSS_CANDIDATES))"
proof -
  have "distinct GLOBAL_CSS_CANDIDATES"
    by (simp add: GLOBAL_CSS_CANDIDATES_def lit_def)
  moreover have "inj (path_join root)"
    by (simp add: inj_def path_join_def)
  ultimately have "distinct (map (path_join root) GLOBAL_CSS_CANDIDATES)"
    by (simp add: distinct_map inj_on_def inj_def)
  then show ?thesis by (rule distinct_filter)
qed

lemma import_match_here_iff:
  "import_match_here rel s \<longleftrightarrow>
     (\<exists>ws q1 q2 post. s = lit ''import'' @ ws @ [q1] @ rel @ [q2] @ post
        \<and> ws \<noteq> [] \<and> (\<forall>c \<in> set ws. is_space c) \<and> is_quote q1 \<and> is_quote q2)"
proof
  assume m: "import_match_here rel s"
  then obtain r1 where r1: "strip_prefix (lit ''import'') s = Some r1"
    by (auto simp: import_match_here_def split: option.splits)
  from m r1 have ws: "takeWhile is_space r1 \<noteq> []"
    by (simp add: import_match_here_def)
  from m r1 obtain q1 r2 where r2: "dropWhile is_space r1 = q1 # r2" and q1: "is_quote q1"
    by (auto simp: import_match_here_def split: list.splits)
  from m r1 r2 obtain r3 where r3: "strip_prefix rel r2 = Some r3"
    by (auto simp: import_match_here_def split: option.splits)
  from m r1 r2 r3 obtain q2 r4 where r4: "r3 = q2 # r4" and q2: "is_quote q2"
    by (auto simp: import_match_here_def split: list.splits)
  have "r1 = takeWhile is_space r1 @ q1 # r2"
    using takeWhile_dropWhile_id [of is_space r1] r2 by simp
  moreover have "r2 = rel @ q2 # r4"
    using r3 r4 by (simp add: strip_prefix_Some)
  moreover have "s = lit ''import'' @ r1"
    using r1 by (simp add: strip_prefix_Some)
  ultimately have "s = lit ''import'' @ takeWhile is_space r1 @ [q1] @ rel @ [q2] @ r4"
    by simp
  moreover have "\<forall>c \<in> set (takeWhile is_space r1). is_space c"
    by (auto dest: set_takeWhileD)
  ultimately show "\<exists>ws q1 q2 post. s = lit ''import'' @ ws @ [q1] @ rel @ [q2] @ post
        \<and> ws \<noteq> [] \<and> (\<forall>c \<in> set ws. is_space c) \<and> is_quote q1 \<and> is_quote q2"
    using ws q1 q2 by blast
next
  assume "\<exists>ws q1 q2 post. s = lit ''import'' @ ws @ [q1] @ rel @ [q2] @ post
        \<and> ws \<noteq> [] \<and> (\<forall>c \<in> set ws. is_space c) \<and> is_quote q1 \<and> is_quote q2"
  then obtain ws q1 q2 post where s: "s = lit ''import'' @ ws @ [q1] @ rel @ [q2] @ post"
    and ws: "ws \<noteq> []" "\<forall>c \<in> set ws. is_space c" and q: "is_quote q1" "is_quote q2"
    by blast
  have 1: "strip_prefix (lit ''import'') s = Some (ws @ q1 # rel @ q2 # post)"
    by (simp add: strip_prefix_Some s)
  have 2: "takeWhile is_space (ws @ q1 # rel @ q2 # post) = ws"
    using ws(2) q(1) by (simp add: takeWhile_append2 not_space_quote)
  have 3: "dropWhile is_space (ws @ q1 # rel @ q2 # post) = q1 # rel @ q2 # post"
    using ws(2) q(1) by (simp add: dropWhile_append2 not_space_quote)
  have 4: "strip_prefix rel (rel @ q2 # post) = Some (q2 # post)"
    by (simp add: strip_prefix_Some)
  show "import_match_here rel s"
    unfolding import_match_here_def 1 option.case 2 3 list.case 4
    using ws(1) q by simp
qed

lemma import_regex_test_iff: "import_regex_test rel s \<longleftrightarrow> import_stmt_in s rel"
proof (induction s)
  case Nil
  show ?case
    by (simp add: import_match_here_iff import_stmt_in_def lit_def)
next
  case (Cons c cs)
  have "import_stmt_in (c # cs) rel \<longleftrightarrow> import_match_here rel (c # cs) \<or> import_stmt_in cs rel"
  proof
    assume "import_stmt_in (c # cs) rel"
    then obtain pre ws q1 q2 post where
      s: "c # cs = pre @ lit ''import'' @ ws @ [q1] @ rel @ [q2] @ post"
      and r: "ws \<noteq> []" "\<forall>c \<in> set ws. is_space c" "is_quote q1" "is_quote q2"
      unfolding import_stmt_in_def by blast
    show "import_match_here rel (c # cs) \<or> import_stmt_in cs rel"
    proof (cases pre)
      case Nil
      with s r have "import_match_here rel (c # cs)"
        unfolding import_match_here_iff by auto
      then show ?thesis ..
    next
      case (Cons a pre')
      with s have "cs = pre' @ lit ''import'' @ ws @ [q1] @ rel @ [q2] @ post" by simp
      with r have "import_stmt_in cs rel"
        unfolding import_stmt_in_def by blast
      then show ?thesis ..
    qed
  next
    assume "import_match_here rel (c # cs) \<or> import_stmt_in cs rel"
    then show "import_stmt_in (c # cs) rel"
    proof
      assume "import_match_here rel (c # cs)"
      then obtain ws q1 q2 post where
        "c # cs = [] @ lit ''import'' @ ws @ [q1] @ rel @ [q2] @ post"
        "ws \<noteq> []" "\<forall>c \<in> set ws. is_space c" "is_quote q1" "is_quote q2"
        unfolding import_match_here_iff by auto
      then show ?thesis
        unfolding import_stmt_in_def by blast
    next
      assume "import_stmt_in cs rel"
      then obtain pre ws q1 q2 post where
        "cs = pre @ lit ''import'' @ ws @ [q1] @ rel @ [q2] @ post"
        and r: "ws \<noteq> []" "\<forall>c \<in> set ws. is_space c" "is_quote q1" "is_quote q2"
        unfolding import_stmt_in_def by blast
      then have "c # cs = (c # pre) @ lit ''import'' @ ws @ [q1] @ rel @ [q2] @ post"
        by simp
      with r show ?thesis
        unfolding import_stmt_in_def by blast
    qed
  qed
  with Cons.IH show ?case by simp
qed

lemma startsWith_dot: "startsWith s (lit ''.'') \<longleftrightarrow> (\<exists>t. s = 0x2E # t)"
  by (cases s) (auto simp: startsWith_def lit_def)

lemma startsWith_join_slash:
  "rel \<noteq> [] \<Longrightarrow> startsWith (join_slash rel) (lit ''.'') \<longleftrightarrow> startsWith (hd rel) (lit ''.'')"
proof (cases rel)
  case Nil
  assume "rel \<noteq> []"
  with Nil show ?thesis by simp
next
  case (Cons a rest)
  show ?thesis
  proof (cases rest)
    case Nil
    with Cons show ?thesis by simp
  next
    case (Cons b rest')
    with \<open>rel = a # rest\<close> show ?thesis
      by (cases a) (auto simp: startsWith_dot SLASH_def)
  qed
qed

lemma normalizedRelative_inside:
  assumes "rel \<noteq> []" and "\<not> startsWith (hd rel) (lit ''.'')"
  shows "normalizedRelative dir (dir @ rel) = lit ''./'' @ join_slash rel"
proof -
  have "relative_segments (dir @ []) (dir @ rel) = relative_segments [] rel"
    by (rule relative_segments_prefix)
  then have "path_relative dir (dir @ rel) = join_slash rel"
    by (simp add: path_relative_def)
  with assms show ?thesis
    by (simp add: normalizedRelative_def startsWith_join_slash)
qed

lemma normalizedRelative_sibling:
  assumes "g \<noteq> []" and "hd g \<noteq> n"
  shows "normalizedRelative (root @ [n]) (root @ g) = lit ''../'' @ join_slash g"
proof -
  from assms obtain t rest where g: "g = t # rest" "t \<noteq> n"
    by (cases g) auto
  have "relative_segments (root @ [n]) (root @ g) = relative_segments [n] g"
    by (rule relative_segments_prefix)
  with g have "path_relative (root @ [n]) (root @ g) = lit ''..'' @ [SLASH] @ join_slash g"
    by (simp add: path_relative_def)
  moreover have "lit ''..'' @ [SLASH] = lit ''../''"
    by (simp add: lit_def SLASH_def)
  ultimately have p: "path_relative (root @ [n]) (root @ g) = lit ''../'' @ join_slash g"
    by simp
  have "startsWith (lit ''../'' @ join_slash g) (lit ''.'')"
    by (simp add: startsWith_def lit_def)
  with p show ?thesis
    by (simp add: normalizedRelative_def)
qed

lemma discover_binding: "discoverEntries fs_binding web0 = Inr [binding_target]"
  by code_simp

lemma selectCss_binding:
  "selectCss fs_binding web0 binding_target
     = Inr [[lit ''web'', lit ''src'', lit ''index.css''],
            [lit ''web'', lit ''src'', lit ''w'', lit ''index.css'']]"
  by code_simp

lemma discover_dotfile: "discoverEntries fs_dotfile web0 = Inr [dotfile_target]"
  by code_simp

lemma selectCss_dotfile:
  "selectCss fs_dotfile web0 dotfile_target
     = Inr [[lit ''web'', lit ''src'', lit ''w'', lit ''.theme.css'']]"
  by code_simp

text \<open>
  C5 (as stated, refuted). The entry file of the first project is the import statement
  \<^verbatim>\<open>import styles from './index.css'\<close>, and \<^verbatim>\<open>selectCss\<close> returns the stylesheet
  \<^verbatim>\<open>index.css\<close> of the entry's directory, whose form relative to that directory is
  \<^verbatim>\<open>./index.css\<close>. The entry file of the second project is \<^verbatim>\<open>import './.theme.css'\<close>, and
  \<^verbatim>\<open>selectCss\<close> returns the stylesheet \<^verbatim>\<open>.theme.css\<close> of the entry's directory.
\<close>

theorem C5_imported_path_kept_counterexample:
  "discoverEntries fs_binding web0 = Inr [binding_target]
   \<and> entrySource binding_target = lit ''import styles from '' @ [0x27] @ lit ''./index.css'' @ [0x27]
   \<and> selectCss fs_binding web0 binding_target
        = Inr [[lit ''web'', lit ''src'', lit ''index.css''],
               [lit ''web'', lit ''src'', lit ''w'', lit ''index.css'']]
   \<and> lit ''./'' @ path_relative (path_dirname (entryFile binding_target))
                    [lit ''web'', lit ''src'', lit ''w'', lit ''index.css'']
        = lit ''./index.css''
   \<and> discoverEntries fs_dotfile web0 = Inr [dotfile_target]
   \<and> entrySource dotfile_target = lit ''import '' @ [0x27] @ lit ''./.theme.css'' @ [0x27]
   \<and> selectCss fs_dotfile web0 dotfile_target
        = Inr [[lit ''web'', lit ''src'', lit ''w'', lit ''.theme.css'']]
   \<and> lit ''./'' @ path_relative (path_dirname (entryFile dotfile_target))
                    [lit ''web'', lit ''src'', lit ''w'', lit ''.theme.css'']
        = lit ''./.theme.css''"
proof -
  have 1: "entrySource binding_target
             = lit ''import styles from '' @ [0x27] @ lit ''./index.css'' @ [0x27]"
    by (simp add: binding_target_def binding_source_def)
  have 2: "lit ''./'' @ path_relative (path_dirname (entryFile binding_target))
                    [lit ''web'', lit ''src'', lit ''w'', lit ''index.css'']
        = lit ''./index.css''"
    by (simp add: binding_target_def path_dirname_def path_relative_def lit_def)
  have 3: "entrySource dotfile_target = lit ''import '' @ [0x27] @ lit ''./.theme.css'' @ [0x27]"
    by (simp add: dotfile_target_def dotfile_source_def)
  have 4: "lit ''./'' @ path_relative (path_dirname (entryFile dotfile_target))
                    [lit ''web'', lit ''src'', lit ''w'', lit ''.theme.css'']
        = lit ''./.theme.css''"
    by (simp add: dotfile_target_def path_dirname_def path_relative_def lit_def)
  from discover_binding selectCss_binding discover_dotfile selectCss_dotfile 1 2 3 4
  show ?thesis by simp
qed

text \<open>
  C5 (amended). For every target, the list that \<^verbatim>\<open>selectCss\<close> returns has no duplicates; it
  is a selection of the existing global stylesheets, in their order, followed by a selection
  of the results of the scan of the entry's directory, in their order, none of which is a
  global stylesheet; and the entry source, with its line ends normalised, holds no
  side-effect import (the word \<^verbatim>\<open>import\<close>, white space, a quoted path) of a returned path in
  its relative form: \<^verbatim>\<open>./\<close> and the segments below the entry's directory, for a path in that
  directory whose first segment does not start with a dot, and \<^verbatim>\<open>../\<close> and the remaining
  segments, for a path that leaves the entry's directory by one step.
\<close>

theorem C5_selectCss:
  assumes "selectCss fs web target = Inr result"
  shows "distinct result
         \<and> (\<exists>scanned gs ss.
               collectCssFiles fs (path_dirname (entryFile target)) = Inr scanned
               \<and> result = gs @ ss
               \<and> subseq gs (filter (existsSync fs)
                              (map (path_join (SRC_ROOT web)) GLOBAL_CSS_CANDIDATES))
               \<and> subseq ss scanned
               \<and> set ss \<inter> set (filter (existsSync fs)
                                   (map (path_join (SRC_ROOT web)) GLOBAL_CSS_CANDIDATES)) = {})
         \<and> (\<forall>p \<in> set result. \<forall>rel.
               p = path_dirname (entryFile target) @ rel \<and> rel \<noteq> []
               \<and> \<not> startsWith (hd rel) (lit ''.'')
               \<longrightarrow> \<not> import_stmt_in (replace_crlf (entrySource target)) (lit ''./'' @ join_slash rel))
         \<and> (\<forall>p \<in> set result. \<forall>root n g.
               path_dirname (entryFile target) = root @ [n] \<and> p = root @ g \<and> g \<noteq> [] \<and> hd g \<noteq> n
               \<longrightarrow> \<not> import_stmt_in (replace_crlf (entrySource target)) (lit ''../'' @ join_slash g))"
proof -
  let ?dir = "path_dirname (entryFile target)"
  let ?src = "replace_crlf (entrySource target)"
  let ?g = "filter (existsSync fs) (map (path_join (SRC_ROOT web)) GLOBAL_CSS_CANDIDATES)"
  let ?K = "\<lambda>p. \<not> import_regex_test (normalizedRelative ?dir p) ?src"
  from assms obtain scanned where sc: "collectCssFiles fs ?dir = Inr scanned"
    and res: "result = filter ?K (array_from_set (?g @ scanned))"
    by (auto simp: selectCss_def filterCssAlreadyImported_def Let_def split: sum.splits)
  from array_from_set_append [OF globalCss_distinct, of fs "SRC_ROOT web" scanned]
  obtain r where r: "array_from_set (?g @ scanned) = ?g @ r" "subseq r scanned"
    "set r \<inter> set ?g = {}" "distinct (?g @ r)"
    by blast
  have split: "result = filter ?K ?g @ filter ?K r"
    using res r(1) by simp
  have d: "distinct result"
    unfolding res r(1) using r(4) by (rule distinct_filter)
  have s1: "subseq (filter ?K ?g) ?g" by (rule subseq_filter_left)
  have "subseq (filter ?K r) r" by (rule subseq_filter_left)
  from this r(2) have s2: "subseq (filter ?K r) scanned"
    by (rule subseq_order.trans)
  have s3: "set (filter ?K r) \<inter> set ?g = {}"
    using r(3) by auto
  have keep: "\<forall>p \<in> set result. \<not> import_stmt_in ?src (normalizedRelative ?dir p)"
    unfolding res by (simp add: import_regex_test_iff)
  have inside: "\<forall>p \<in> set result. \<forall>rel.
               p = ?dir @ rel \<and> rel \<noteq> [] \<and> \<not> startsWith (hd rel) (lit ''.'')
               \<longrightarrow> \<not> import_stmt_in ?src (lit ''./'' @ join_slash rel)"
    using keep normalizedRelative_inside [of _ ?dir] by metis
  have sibling: "\<forall>p \<in> set result. \<forall>root n g.
               ?dir = root @ [n] \<and> p = root @ g \<and> g \<noteq> [] \<and> hd g \<noteq> n
               \<longrightarrow> \<not> import_stmt_in ?src (lit ''../'' @ join_slash g)"
    using keep normalizedRelative_sibling by metis
  from sc split s1 s2 s3 have order: "\<exists>scanned gs ss.
               collectCssFiles fs ?dir = Inr scanned
               \<and> result = gs @ ss \<and> subseq gs ?g \<and> subseq ss scanned \<and> set ss \<inter> set ?g = {}"
    by blast
  from d order inside sibling show ?thesis by blast
qed

theorem C5_selectCss_witness:
  "selectCss fs_binding web0 binding_target
     = Inr [[lit ''web'', lit ''src'', lit ''index.css''],
            [lit ''web'', lit ''src'', lit ''w'', lit ''index.css'']]
   \<and> distinct [[lit ''web'', lit ''src'', lit ''index.css''],
                [lit ''web'', lit ''src'', lit ''w'', lit ''index.css'']]
   \<and> \<not> import_stmt_in (replace_crlf (entrySource binding_target))
          (lit ''./'' @ join_slash [lit ''index.css''])
   \<and> \<not> import_stmt_in (replace_crlf (entrySource binding_target))
          (lit ''../'' @ join_slash [lit ''index.css''])"
proof -
  note t = C5_selectCss [OF selectCss_binding]
  have dir: "path_dirname (entryFile binding_target) = [lit ''web'', lit ''src''] @ [lit ''w'']"
    by (simp add: binding_target_def path_dirname_def)
  have m1: "[lit ''web'', lit ''src'', lit ''w'', lit ''index.css'']
              \<in> set [[lit ''web'', lit ''src'', lit ''index.css''],
                     [lit ''web'', lit ''src'', lit ''w'', lit ''index.css'']]"
    by simp
  have m2: "[lit ''web'', lit ''src'', lit ''index.css'']
              \<in> set [[lit ''web'', lit ''src'', lit ''index.css''],
                     [lit ''web'', lit ''src'', lit ''w'', lit ''index.css'']]"
    by simp
  have h1: "[lit ''web'', lit ''src'', lit ''w'', lit ''index.css'']
              = path_dirname (entryFile binding_target) @ [lit ''index.css'']
            \<and> [lit ''index.css''] \<noteq> []
            \<and> \<not> startsWith (hd [lit ''index.css'']) (lit ''.'')"
    by (simp add: dir startsWith_def lit_def)
  have h2: "path_dirname (entryFile binding_target) = [lit ''web'', lit ''src''] @ [lit ''w'']
            \<and> [lit ''web'', lit ''src'', lit ''index.css'']
                 = [lit ''web'', lit ''src''] @ [lit ''index.css'']
            \<and> [lit ''index.css''] \<noteq> [] \<and> hd [lit ''index.css''] \<noteq> lit ''w''"
    by (simp add: dir lit_def)
  from t have d: "distinct [[lit ''web'', lit ''src'', lit ''index.css''],
                [lit ''web'', lit ''src'', lit ''w'', lit ''index.css'']]"
    by blast
  from t have "\<forall>p \<in> set [[lit ''web'', lit ''src'', lit ''index.css''],
                [lit ''web'', lit ''src'', lit ''w'', lit ''index.css'']]. \<forall>rel.
               p = path_dirname (entryFile binding_target) @ rel \<and> rel \<noteq> []
               \<and> \<not> startsWith (hd rel) (lit ''.'')
               \<longrightarrow> \<not> import_stmt_in (replace_crlf (entrySource binding_target))
                      (lit ''./'' @ join_slash rel)"
    by blast
  from bspec [OF this m1] h1
  have a: "\<not> import_stmt_in (replace_crlf (entrySource binding_target))
          (lit ''./'' @ join_slash [lit ''index.css''])"
    by blast
  from t have "\<forall>p \<in> set [[lit ''web'', lit ''src'', lit ''index.css''],
                [lit ''web'', lit ''src'', lit ''w'', lit ''index.css'']]. \<forall>root n g.
               path_dirname (entryFile binding_target) = root @ [n] \<and> p = root @ g
               \<and> g \<noteq> [] \<and> hd g \<noteq> n
               \<longrightarrow> \<not> import_stmt_in (replace_crlf (entrySource binding_target))
                      (lit ''../'' @ join_slash g)"
    by blast
  from bspec [OF this m2] h2
  have b: "\<not> import_stmt_in (replace_crlf (entrySource binding_target))
          (lit ''../'' @ join_slash [lit ''index.css''])"
    by blast
  from selectCss_binding d a b show ?thesis by blast
qed

section \<open>The records of the manifest\<close>

lemma manifest_assign_other:
  "k \<noteq> key \<Longrightarrow> map_of (manifest_assign m key v) k = map_of m k"
  by (simp add: manifest_assign_def update_conv')

lemma manifest_assign_same:
  "key \<noteq> lit ''__proto__'' \<Longrightarrow> map_of (manifest_assign m key v) key = Some v"
  by (simp add: manifest_assign_def update_conv')

lemma manifest_assign_proto: "manifest_assign m (lit ''__proto__'') v = m"
  by (simp add: manifest_assign_def)

lemma build_loop_keeps_other:
  "build_loop ext web c ts m w = (Inr mf, w') \<Longrightarrow> k \<notin> set (map name ts)
     \<Longrightarrow> map_of mf k = map_of m k"
proof (induction ts arbitrary: m w)
  case Nil
  then show ?case by simp
next
  case (Cons t ts)
  from Cons.prems(1) obtain entry w1 where
    rest: "build_loop ext web c ts (manifest_assign m (name t) entry) w1 = (Inr mf, w')"
    by (auto split: prod.splits sum.splits)
  from Cons.prems(2) have "k \<noteq> name t" "k \<notin> set (map name ts)" by auto
  with Cons.IH [OF rest] show ?case
    by (simp add: manifest_assign_other)
qed

text \<open>
  When the loop has built every target, the manifest holds, under the name of each target
  other than \<^verbatim>\<open>__proto__\<close> (the names being distinct, as the names of the subdirectories of
  one directory are), the record of that target's build: the bundler returned, the script
  was found, and \<^verbatim>\<open>css\<close> is \<^verbatim>\<open>null\<close> exactly when the stylesheet did not exist in the output
  directory as that build left it.
\<close>

lemma build_loop_records:
  "build_loop ext web c ts m w = (Inr mf, w') \<Longrightarrow> distinct (map name ts) \<Longrightarrow> t \<in> set ts
     \<Longrightarrow> name t \<noteq> lit ''__proto__''
     \<Longrightarrow> \<exists>cs snapshot built.
           Build (entryConfig web t cs) snapshot \<in> set (events w')
           \<and> build ext c (entryConfig web t cs) snapshot = (None, built)
           \<and> existsSync built (widgetJsPath web t)
           \<and> map_of mf (name t) =
               Some \<lparr>js = lit ''widgets'' @ [SLASH] @ name t @ lit ''.js'',
                     css = (if existsSync built (widgetCssPath web t)
                            then Some (lit ''widgets'' @ [SLASH] @ name t @ lit ''.css'')
                            else None),
                     rootId = detectedRootId t\<rparr>"
proof (induction ts arbitrary: m w)
  case Nil
  then show ?case by simp
next
  case (Cons u ts)
  from Cons.prems(1) obtain entry w1 where bt: "build_target ext web c u w = (Inr entry, w1)"
    and rest: "build_loop ext web c ts (manifest_assign m (name u) entry) w1 = (Inr mf, w')"
    by (auto split: prod.splits sum.splits)
  show ?case
  proof (cases "t = u")
    case True
    from build_target_Inr [OF bt] obtain cs where
      cs: "events w1 = events w @ [Build (entryConfig web u cs) (files w)]"
      "build ext c (entryConfig web u cs) (files w) = (None, files w1)"
      "existsSync (files w1) (widgetJsPath web u)"
      by blast
    have sel: "selectCss (files w) web u = Inr cs"
      using bt cs(1)
      by (auto simp: build_target_def Let_def entryConfig_def
          split: sum.splits prod.splits option.splits)
    from build_target_ok [OF sel cs(2,3)] bt
    have entry: "entry = \<lparr>js = lit ''widgets'' @ [SLASH] @ name u @ lit ''.js'',
                     css = (if existsSync (files w1) (widgetCssPath web u)
                            then Some (lit ''widgets'' @ [SLASH] @ name u @ lit ''.css'')
                            else None),
                     rootId = detectedRootId u\<rparr>"
      by simp
    from build_loop_events [OF rest] obtain bs where "events w' = events w1 @ bs" by blast
    with cs(1) have ev: "Build (entryConfig web u cs) (files w) \<in> set (events w')" by simp
    from Cons.prems(2) have "name u \<notin> set (map name ts)" by simp
    from build_loop_keeps_other [OF rest this] Cons.prems(4) True
    have "map_of mf (name u) = Some entry"
      by (simp add: manifest_assign_same)
    with ev cs(2,3) entry True show ?thesis by blast
  next
    case False
    with Cons.prems(2,3) have "distinct (map name ts)" "t \<in> set ts" by auto
    from Cons.IH [OF rest this Cons.prems(4)] show ?thesis .
  qed
qed

lemma run_manifest_records:
  assumes "existsSync fs (SRC_ROOT web)" and "discoverEntries fs web = Inr targets"
    and "exitCode (run ext web fs) = 0"
    and "distinct (map name targets)" and "t \<in> set targets"
    and "name t \<noteq> lit ''__proto__''"
  shows "\<exists>baseConfig cs snapshot built mf evs.
           events (final (run ext web fs)) = evs @ [WriteManifest mf]
           \<and> Build (entryConfig web t cs) snapshot \<in> set evs
           \<and> build ext baseConfig (entryConfig web t cs) snapshot = (None, built)
           \<and> existsSync built (widgetJsPath web t)
           \<and> map_of mf (name t) =
               Some \<lparr>js = lit ''widgets'' @ [SLASH] @ name t @ lit ''.js'',
                     css = (if existsSync built (widgetCssPath web t)
                            then Some (lit ''widgets'' @ [SLASH] @ name t @ lit ''.css'')
                            else None),
                     rootId = detectedRootId t\<rparr>"
proof -
  let ?w0 = "\<lparr>files = fs, events = []\<rparr>"
  from assms(5) have ne: "targets \<noteq> []" by auto
  obtain r w' where m: "main ext web ?w0 = (r, w')"
    by (cases "main ext web ?w0")
  with assms(3) obtain u where ok: "r = Inr u" and fin: "final (run ext web fs) = w'"
    by (cases r) (simp_all add: run_def)
  note mt = main_with_targets [of ?w0 web targets ext, simplified, OF assms(1,2) ne]
  obtain r1 w1 where p: "prepareOutput web ?w0 = (r1, w1)"
    by (cases "prepareOutput web ?w0")
  from m mt p ok obtain baseConfig mf w2 where
    l: "build_loop ext web baseConfig targets [] w1 = (Inr mf, w2)"
    and wm: "write_manifest ext web mf w2 = (Inr u, w')"
    by (auto split: prod.splits sum.splits)
  from write_manifest_cases [OF wm]
  have w: "events w' = events w2 @ [WriteManifest mf]"
    by auto
  from build_loop_records [OF l assms(4-6)] w fin show ?thesis
    by blast
qed

lemma discover_proto: "discoverEntries fs_proto web0 = Inr [proto_target]"
  by (simp add: discoverEntries_def readdirSync_def fs_proto_def web0_def SRC_ROOT_def
      path_join_def startsWith_def resolveEntryFile_def ENTRY_FILES_def existsSync_def
      readFileSync_def proto_target_def detectRootId_def rootid_match_hello)
     (simp add: lit_def)

lemma prepare_proto:
  "prepareOutput web0 \<lparr>files = fs_proto, events = []\<rparr>
     = (Inr (), \<lparr>files = fs_proto, events = [PrepareOutput]\<rparr>)"
  by (simp add: prepareOutput_def fs_proto_def web0_def OUT_DIR_def
      path_join_def lit_def AList.delete_eq)

lemma selectCss_proto: "selectCss fs_proto web0 proto_target = Inr []"
  apply (simp add: selectCss_def proto_target_def GLOBAL_CSS_CANDIDATES_def web0_def SRC_ROOT_def
      path_join_def path_dirname_def collectCssFiles_def readdirSync_def)
  apply (simp add: fs_proto_def existsSync_def lit_def path_extname_def toLowerCase_def
      lower_char_def DOT_def CSS_EXTENSIONS_def CSS_MODULE_REGEX_test_def collect_loop.simps)
  apply (simp add: filterCssAlreadyImported_def normalizedRelative_def path_relative_def
      startsWith_def array_from_set_def set_add_def path_join_def path_dirname_def
      hello_source_def import_match_here_def lit_def is_space_def is_quote_def SLASH_def)
  done

lemma build_proto_writing:
  "build ext_writing () (entryConfig web0 proto_target []) fs_proto = (None, fs_proto_built)"
  by (simp add: ext_writing_def entryConfig_def web0_def proto_target_def OUT_DIR_def
      path_join_def fs_proto_def fs_proto_built_def lit_def)

lemma proto_built_js: "existsSync fs_proto_built (widgetJsPath web0 proto_target)"
  by (simp add: existsSync_def fs_proto_built_def widgetJsPath_def web0_def proto_target_def
      OUT_DIR_def path_join_def lit_def)

lemma proto_built_css: "existsSync fs_proto_built (widgetCssPath web0 proto_target)"
  by (simp add: existsSync_def fs_proto_built_def widgetCssPath_def web0_def proto_target_def
      OUT_DIR_def path_join_def lit_def)

lemma build_target_proto:
  "build_target ext_writing web0 () proto_target \<lparr>files = fs_proto, events = [PrepareOutput]\<rparr>
     = (Inr \<lparr>js = lit ''widgets/__proto__.js'', css = Some (lit ''widgets/__proto__.css''),
             rootId = lit ''hello-world-root''\<rparr>,
        \<lparr>files = fs_proto_built,
         events = [PrepareOutput, Build (entryConfig web0 proto_target []) fs_proto]\<rparr>)"
proof -
  let ?w = "\<lparr>files = fs_proto, events = [PrepareOutput]\<rparr>"
  have s: "selectCss (files ?w) web0 proto_target = Inr []"
    by (simp add: selectCss_proto)
  have b: "build ext_writing () (entryConfig web0 proto_target []) (files ?w)
             = (None, fs_proto_built)"
    by (simp add: build_proto_writing)
  have n: "lit ''widgets'' @ [SLASH] @ name proto_target @ lit ''.js'' = lit ''widgets/__proto__.js''"
    "lit ''widgets'' @ [SLASH] @ name proto_target @ lit ''.css'' = lit ''widgets/__proto__.css''"
    "detectedRootId proto_target = lit ''hello-world-root''"
    by (simp_all add: proto_target_def lit_def SLASH_def)
  from build_target_ok [OF s b proto_built_js] proto_built_css n show ?thesis
    by simp
qed

lemma write_manifest_proto:
  "write_manifest ext_writing web0 [] \<lparr>files = fs_proto_built, events = evs\<rparr>
     = (Inr (), \<lparr>files = fs_proto_done, events = evs @ [WriteManifest []]\<rparr>)"
  by (simp add: write_manifest_def MANIFEST_PATH_def OUT_DIR_def web0_def path_join_def
      ext_writing_def fs_proto_built_def fs_proto_done_def lit_def)

text \<open>
  C9 (fails on a widget named \<^verbatim>\<open>__proto__\<close>). The project has the one widget directory
  \<^verbatim>\<open>__proto__\<close>. The bundler returns and leaves \<^verbatim>\<open>__proto__.js\<close> and \<^verbatim>\<open>__proto__.css\<close> in the
  output directory, the script is found, and the loop body makes the record with \<^verbatim>\<open>css\<close>
  equal to \<^verbatim>\<open>widgets/__proto__.css\<close>. The assignment \<^verbatim>\<open>manifest[target.name] = ...\<close> stores
  nothing under that name: the run ends with exit code 0 and the manifest it writes is empty,
  so the manifest has no \<^verbatim>\<open>css\<close> field for this successfully built target.
\<close>

theorem C9_proto_target_not_in_manifest:
  "existsSync fs_proto (SRC_ROOT web0)
   \<and> discoverEntries fs_proto web0 = Inr [proto_target]
   \<and> build ext_writing () (entryConfig web0 proto_target []) fs_proto = (None, fs_proto_built)
   \<and> existsSync fs_proto_built (widgetJsPath web0 proto_target)
   \<and> existsSync fs_proto_built (widgetCssPath web0 proto_target)
   \<and> fst (build_target ext_writing web0 () proto_target
            \<lparr>files = fs_proto, events = [PrepareOutput]\<rparr>)
        = Inr \<lparr>js = lit ''widgets/__proto__.js'', css = Some (lit ''widgets/__proto__.css''),
               rootId = lit ''hello-world-root''\<rparr>
   \<and> run ext_writing web0 fs_proto =
        \<lparr>exitCode = 0, caught = None,
         final = \<lparr>files = fs_proto_done,
                  events = [PrepareOutput, Build (entryConfig web0 proto_target []) fs_proto,
                            WriteManifest []]\<rparr>\<rparr>
   \<and> lookup (MANIFEST_PATH web0) fs_proto_done = Some (File (JSON_stringify ext_writing []))"
proof -
  have src: "existsSync fs_proto (SRC_ROOT web0)"
    by (simp add: existsSync_def fs_proto_def SRC_ROOT_def web0_def path_join_def lit_def)
  have n: "name proto_target = lit ''__proto__''"
    by (simp add: proto_target_def)
  have r: "run ext_writing web0 fs_proto =
        \<lparr>exitCode = 0, caught = None,
         final = \<lparr>files = fs_proto_done,
                  events = [PrepareOutput, Build (entryConfig web0 proto_target []) fs_proto,
                            WriteManifest []]\<rparr>\<rparr>"
    by (simp add: run_def main_def ensureDirectoryExists_def src discover_proto prepare_proto
        load_writing build_target_proto n manifest_assign_proto write_manifest_proto)
  have f: "lookup (MANIFEST_PATH web0) fs_proto_done = Some (File (JSON_stringify ext_writing []))"
    by (simp add: MANIFEST_PATH_def OUT_DIR_def web0_def path_join_def
        ext_writing_def fs_proto_done_def lit_def)
  from src discover_proto build_proto_writing proto_built_js proto_built_css r f show ?thesis
    by (simp add: build_target_proto)
qed

end
